theory Spec2Isabelle
  imports Main "HOL-Library.Char_ord" "HOL-Library.List_Lexorder" "HOL-Library.Multiset"
begin

section \<open>The persistence layer of Adhyatmik Hisab\<close>

text \<open>
  A shallow embedding of \<^verbatim>\<open>src/db/index.ts\<close> and of the record types of
  \<^verbatim>\<open>src/types/index.ts\<close>. The database is a Dexie (IndexedDB) store of four tables.
  What the engine does is written out where the functions of the repository rely on it:
  \<^item> a table holds one record per primary key and is traversed in ascending order of that
    key; a secondary index is traversed in ascending order of the indexed field and, among
    equal fields, of the primary key. Keys are strings, compared code unit by code unit
    (the lexicographic order of \<^typ>\<open>string\<close>);
  \<^item> \<^verbatim>\<open>add\<close> refuses a key that is taken, \<^verbatim>\<open>put\<close> replaces, \<^verbatim>\<open>update\<close>
    changes the record of a key if there is one;
  \<^item> the \<^verbatim>\<open>creating\<close> hook of a table runs on every record that \<^verbatim>\<open>add\<close>,
    \<^verbatim>\<open>put\<close> or \<^verbatim>\<open>bulkPut\<close> stores under a key that the table does not hold yet,
    the \<^verbatim>\<open>updating\<close> hook on every other write;
  \<^item> a call outside \<^verbatim>\<open>db.transaction\<close> commits by itself; a transaction block commits
    all of its writes, or none when its body throws.
  Calls run one after the other: a call has returned before the next one starts.
  \<^verbatim>\<open>new Date()\<close> and \<^verbatim>\<open>generateId()\<close> read the clock and a random source: their
  results are arguments (\<open>now\<close>, \<open>newId\<close>) of the function that calls them, one reading of
  the clock per call. A JavaScript number is an \<^typ>\<open>int\<close> (orders and counts are whole
  numbers far below $2^{53}$). A field that a stored record may lack is an
  \<^typ>\<open>'a option\<close>: a field that is absent and a field that holds \<^verbatim>\<open>undefined\<close> both
  read as \<^term>\<open>None\<close>.
\<close>

subsection \<open>Record types\<close>

type_synonym instant = int

datatype HisabType = Shubh | Ashubh

datatype HabitType = HBoolean | HRating | HTime | HCount

datatype TrackingInterval = Daily | Weekly | Monthly

text \<open>
  A stored category. Every field but the primary key may be missing from the stored
  object: \<open>hisabType\<close> came with schema version 2, so a record written under version 1
  lacks it, and \<open>updateCategory\<close> deletes a field that its patch names with the value
  \<^verbatim>\<open>undefined\<close>. \<^verbatim>\<open>category.isFixed\<close> is truthy when the field is \<^term>\<open>Some True\<close>.
\<close>

record Category =
  cat_id :: string
  cat_name :: "string option"
  cat_nameHindi :: "string option"
  cat_color :: "string option"
  cat_icon :: "string option"
  cat_order :: "int option"
  cat_isFixed :: "bool option"
  cat_hisabType :: "HisabType option"
  cat_createdAt :: "instant option"

text \<open>
  A stored habit. \<open>interval\<close>, \<open>trackingDay\<close>, \<open>trackingDate\<close>, \<open>reminderEnabled\<close>
  and \<open>reminderTime\<close> came with schema version 2.
\<close>

record Habit =
  hab_id :: string
  hab_name :: string
  hab_description :: "string option"
  hab_image :: "string option"
  hab_categoryId :: string
  hab_type :: HabitType
  hab_options :: "string list option"
  hab_unit :: "string option"
  hab_target :: "int option"
  hab_interval :: "TrackingInterval option"
  hab_trackingDay :: "nat option"
  hab_trackingDate :: "nat option"
  hab_reminderEnabled :: "bool option"
  hab_reminderTime :: "string option"
  hab_order :: int
  hab_isActive :: bool
  hab_createdAt :: instant

text \<open>The value of a log entry: \<^verbatim>\<open>boolean | string | number\<close>.\<close>

datatype logval = VBool bool | VStr string | VNum int

record LogEntry =
  log_id :: string
  log_habitId :: string
  log_date :: string
  log_val :: logval
  log_note :: "string option"
  log_skippedReason :: "string option"
  log_createdAt :: instant
  log_updatedAt :: instant

text \<open>A row of the settings table: \<^verbatim>\<open>{ key: string; value: unknown }\<close>.\<close>

datatype setting_value = SBool bool | SNum int | SStr string | SInstant instant | SNull

record Setting =
  set_key :: string
  set_val :: setting_value

record store =
  categories :: "Category list"
  habits :: "Habit list"
  logEntries :: "LogEntry list"
  settings :: "Setting list"

definition emptyStore :: store where
  "emptyStore = \<lparr>categories = [], habits = [], logEntries = [], settings = []\<rparr>"

datatype error =
    ConstraintError
  | TypeError
  | VersionError
  | CannotDeleteFixedCategory
  | InvalidBackupFile
  | ModifyError

definition SHUBH_HISAB_ID :: string where
  "SHUBH_HISAB_ID = ''shubh-hisab''"

definition ASHUBH_HISAB_ID :: string where
  "ASHUBH_HISAB_ID = ''ashubh-hisab''"

definition CURRENT_DB_VERSION :: nat where
  "CURRENT_DB_VERSION = 2"

definition CURRENT_APP_VERSION :: string where
  "CURRENT_APP_VERSION = ''1.0.0''"

subsection \<open>Tables\<close>

text \<open>
  A table is the list of its records in ascending order of the primary key, which
  \<open>key\<close> reads off a record. \<open>wf_table\<close> says that the keys ascend strictly: every
  table of the engine is of this form.
\<close>

definition wf_table :: "('r \<Rightarrow> string) \<Rightarrow> 'r list \<Rightarrow> bool" where
  "wf_table key t = sorted_wrt (\<lambda>x y. key x < key y) t"

definition tget :: "('r \<Rightarrow> string) \<Rightarrow> string \<Rightarrow> 'r list \<Rightarrow> 'r option" where
  "tget key k t = find (\<lambda>r. key r = k) t"

fun tput :: "('r \<Rightarrow> string) \<Rightarrow> 'r \<Rightarrow> 'r list \<Rightarrow> 'r list" where
  "tput key r [] = [r]"
| "tput key r (x # t) =
     (if key r < key x then r # x # t
      else if key r = key x then r # t
      else x # tput key r t)"

definition tadd :: "('r \<Rightarrow> string) \<Rightarrow> 'r \<Rightarrow> 'r list \<Rightarrow> error + 'r list" where
  "tadd key r t =
     (case tget key (key r) t of
        Some _ \<Rightarrow> Inl ConstraintError
      | None \<Rightarrow> Inr (tput key r t))"

definition tupdate :: "('r \<Rightarrow> string) \<Rightarrow> string \<Rightarrow> ('r \<Rightarrow> 'r) \<Rightarrow> 'r list \<Rightarrow> 'r list" where
  "tupdate key k f t = map (\<lambda>r. if key r = k then f r else r) t"

definition tdelete :: "('r \<Rightarrow> string) \<Rightarrow> string \<Rightarrow> 'r list \<Rightarrow> 'r list" where
  "tdelete key k t = filter (\<lambda>r. key r \<noteq> k) t"

text \<open>
  \<^verbatim>\<open>bulkPut\<close>: the engine looks every key up in the table as it is before the batch, runs
  the creating hook on the records whose key is new and the updating hook on the others,
  and puts them in the order of the array.
\<close>

definition tbulkPut ::
    "('r \<Rightarrow> string) \<Rightarrow> ('r \<Rightarrow> 'r) \<Rightarrow> ('r \<Rightarrow> 'r) \<Rightarrow> 'r list \<Rightarrow> 'r list \<Rightarrow> 'r list" where
  "tbulkPut key creating updating rs t =
     fold (\<lambda>r acc. tput key (if tget key (key r) t = None then creating r else updating r) acc)
       rs t"

text \<open>\<^verbatim>\<open>first()\<close> and \<open>last()\<close> of a collection, \<^verbatim>\<open>undefined\<close> when it is empty.\<close>

definition firstOf :: "'r list \<Rightarrow> 'r option" where
  "firstOf xs = (case xs of [] \<Rightarrow> None | x # _ \<Rightarrow> Some x)"

definition lastOf :: "'r list \<Rightarrow> 'r option" where
  "lastOf xs = (case rev xs of [] \<Rightarrow> None | x # _ \<Rightarrow> Some x)"

subsection \<open>Hooks for automatic timestamps\<close>

definition logEntries_creating :: "instant \<Rightarrow> LogEntry \<Rightarrow> LogEntry" where
  "logEntries_creating now obj = obj\<lparr>log_createdAt := now, log_updatedAt := now\<rparr>"

text \<open>The updating hook adds \<open>updatedAt\<close> to the modifications \<open>f\<close> of a write.\<close>

definition logEntries_updating :: "instant \<Rightarrow> (LogEntry \<Rightarrow> LogEntry) \<Rightarrow> LogEntry \<Rightarrow> LogEntry" where
  "logEntries_updating now f obj = (f obj)\<lparr>log_updatedAt := now\<rparr>"

definition categories_creating :: "instant \<Rightarrow> Category \<Rightarrow> Category" where
  "categories_creating now obj = obj\<lparr>cat_createdAt := Some now\<rparr>"

definition habits_creating :: "instant \<Rightarrow> Habit \<Rightarrow> Habit" where
  "habits_creating now obj = obj\<lparr>hab_createdAt := now\<rparr>"

subsection \<open>Log entry operations\<close>

text \<open>
  \<^verbatim>\<open>db.logEntries.where('[habitId+date]').equals([habitId, date]).first()\<close>: among the
  entries of the pair, the one with the least primary key.
\<close>

definition getLogEntry :: "string \<Rightarrow> string \<Rightarrow> LogEntry list \<Rightarrow> LogEntry option" where
  "getLogEntry habitId date t =
     firstOf (filter (\<lambda>e. log_habitId e = habitId \<and> log_date e = date) t)"

definition logHabit ::
    "string \<Rightarrow> string \<Rightarrow> logval \<Rightarrow> string option \<Rightarrow> string \<Rightarrow> instant \<Rightarrow> store
       \<Rightarrow> (error + string) \<times> store" where
  "logHabit habitId date v note newId now s =
     (case getLogEntry habitId date (logEntries s) of
        Some existing \<Rightarrow>
          (Inr (log_id existing),
           s\<lparr>logEntries :=
               tupdate log_id (log_id existing)
                 (logEntries_updating now
                    (\<lambda>e. e\<lparr>log_val := v, log_note := note, log_updatedAt := now\<rparr>))
                 (logEntries s)\<rparr>)
      | None \<Rightarrow>
          (case tadd log_id
                  (logEntries_creating now
                     \<lparr>log_id = newId, log_habitId = habitId, log_date = date, log_val = v,
                      log_note = note, log_skippedReason = None,
                      log_createdAt = now, log_updatedAt = now\<rparr>)
                  (logEntries s) of
             Inl err \<Rightarrow> (Inl err, s)
           | Inr t \<Rightarrow> (Inr newId, s\<lparr>logEntries := t\<rparr>)))"

definition skipHabit ::
    "string \<Rightarrow> string \<Rightarrow> string \<Rightarrow> string \<Rightarrow> instant \<Rightarrow> store \<Rightarrow> (error + string) \<times> store" where
  "skipHabit habitId date reason newId now s =
     (case getLogEntry habitId date (logEntries s) of
        Some existing \<Rightarrow>
          (Inr (log_id existing),
           s\<lparr>logEntries :=
               tupdate log_id (log_id existing)
                 (logEntries_updating now
                    (\<lambda>e. e\<lparr>log_skippedReason := Some reason, log_updatedAt := now\<rparr>))
                 (logEntries s)\<rparr>)
      | None \<Rightarrow>
          (case tadd log_id
                  (logEntries_creating now
                     \<lparr>log_id = newId, log_habitId = habitId, log_date = date,
                      log_val = VBool False, log_note = None,
                      log_skippedReason = Some reason,
                      log_createdAt = now, log_updatedAt = now\<rparr>)
                  (logEntries s) of
             Inl err \<Rightarrow> (Inl err, s)
           | Inr t \<Rightarrow> (Inr newId, s\<lparr>logEntries := t\<rparr>)))"

text \<open>
  \<^verbatim>\<open>db.logEntries.where('date').between(startDate, endDate, true, true).toArray()\<close>:
  the index on \<open>date\<close> lists the entries by date and, within a date, by primary key; the
  range is empty when its lower bound lies above its upper bound.
\<close>

definition date_index :: "LogEntry list \<Rightarrow> LogEntry list" where
  "date_index t = sort_key log_date t"

definition getLogEntriesInRange :: "string \<Rightarrow> string \<Rightarrow> store \<Rightarrow> LogEntry list" where
  "getLogEntriesInRange startDate endDate s =
     (if endDate < startDate then []
      else filter (\<lambda>e. startDate \<le> log_date e \<and> log_date e \<le> endDate)
             (date_index (logEntries s)))"

subsection \<open>Seeding the two fixed categories\<close>

text \<open>The Hindi names and the icons are the UTF-8 bytes of the literals of the source.\<close>

definition SHUBH_NAME_HINDI :: string where
  "SHUBH_NAME_HINDI = [CHR 0xE0, CHR 0xA4, CHR 0xB6, CHR 0xE0, CHR 0xA5, CHR 0x81, CHR 0xE0,
     CHR 0xA4, CHR 0xAD, CHR 0x20, CHR 0xE0, CHR 0xA4, CHR 0xB9, CHR 0xE0, CHR 0xA4, CHR 0xBF,
     CHR 0xE0, CHR 0xA4, CHR 0xB8, CHR 0xE0, CHR 0xA4, CHR 0xBE, CHR 0xE0, CHR 0xA4, CHR 0xAC]"

definition ASHUBH_NAME_HINDI :: string where
  "ASHUBH_NAME_HINDI = [CHR 0xE0, CHR 0xA4, CHR 0x85, CHR 0xE0, CHR 0xA4, CHR 0xB6, CHR 0xE0,
     CHR 0xA5, CHR 0x81, CHR 0xE0, CHR 0xA4, CHR 0xAD, CHR 0x20, CHR 0xE0, CHR 0xA4, CHR 0xB9,
     CHR 0xE0, CHR 0xA4, CHR 0xBF, CHR 0xE0, CHR 0xA4, CHR 0xB8, CHR 0xE0, CHR 0xA4, CHR 0xBE,
     CHR 0xE0, CHR 0xA4, CHR 0xAC]"

definition SHUBH_ICON :: string where
  "SHUBH_ICON = [CHR 0xF0, CHR 0x9F, CHR 0x99, CHR 0x8F]"

definition ASHUBH_ICON :: string where
  "ASHUBH_ICON = [CHR 0xE2, CHR 0x9A, CHR 0xA0, CHR 0xEF, CHR 0xB8, CHR 0x8F]"

definition shubhCategory :: "instant \<Rightarrow> Category" where
  "shubhCategory now =
     \<lparr>cat_id = SHUBH_HISAB_ID, cat_name = Some ''Shubh Hisab'',
      cat_nameHindi = Some SHUBH_NAME_HINDI, cat_color = Some ''#3A9173'',
      cat_icon = Some SHUBH_ICON, cat_order = Some 0, cat_isFixed = Some True,
      cat_hisabType = Some Shubh, cat_createdAt = Some now\<rparr>"

definition ashubhCategory :: "instant \<Rightarrow> Category" where
  "ashubhCategory now =
     \<lparr>cat_id = ASHUBH_HISAB_ID, cat_name = Some ''Ashubh Hisab'',
      cat_nameHindi = Some ASHUBH_NAME_HINDI, cat_color = Some ''#DC2626'',
      cat_icon = Some ASHUBH_ICON, cat_order = Some 1, cat_isFixed = Some True,
      cat_hisabType = Some Ashubh, cat_createdAt = Some now\<rparr>"

definition seedDefaultCategories :: "instant \<Rightarrow> store \<Rightarrow> store" where
  "seedDefaultCategories now s =
     (let shubhExists = tget cat_id SHUBH_HISAB_ID (categories s);
          ashubhExists = tget cat_id ASHUBH_HISAB_ID (categories s)
      in if shubhExists \<noteq> None \<and> ashubhExists \<noteq> None then s
         else
           let c1 = (if shubhExists = None
                     then tput cat_id (categories_creating now (shubhCategory now)) (categories s)
                     else categories s);
               c2 = (if ashubhExists = None
                     then tput cat_id (categories_creating now (ashubhCategory now)) c1
                     else c1)
           in s\<lparr>categories := c2,
                settings := tput set_key
                  \<lparr>set_key = ''hasSeededCategories'', set_val = SBool True\<rparr> (settings s)\<rparr>)"

subsection \<open>Category operations\<close>

text \<open>\<^verbatim>\<open>Omit<Category, 'id' | 'createdAt' | 'order' | 'isFixed'>\<close>\<close>

record CategoryData =
  cd_name :: string
  cd_nameHindi :: "string option"
  cd_color :: string
  cd_icon :: string
  cd_hisabType :: HisabType

text \<open>
  \<^verbatim>\<open>db.categories.orderBy('order').last()\<close>: the index on \<open>order\<close> holds the
  categories that have an \<open>order\<close>, by order and, within an order, by primary key.
\<close>

definition order_index :: "Category list \<Rightarrow> (int \<times> Category) list" where
  "order_index t =
     sort_key fst (List.map_filter (\<lambda>c. map_option (\<lambda>v. (v, c)) (cat_order c)) t)"

definition createCategory ::
    "CategoryData \<Rightarrow> string \<Rightarrow> instant \<Rightarrow> store \<Rightarrow> (error + string) \<times> store" where
  "createCategory data newId now s =
     (let maxOrder = lastOf (order_index (categories s));
          order = (case maxOrder of Some m \<Rightarrow> fst m + 1 | None \<Rightarrow> 0)
      in case tadd cat_id
                (categories_creating now
                   \<lparr>cat_id = newId, cat_name = Some (cd_name data),
                    cat_nameHindi = cd_nameHindi data, cat_color = Some (cd_color data),
                    cat_icon = Some (cd_icon data), cat_order = Some order,
                    cat_isFixed = Some False, cat_hisabType = Some (cd_hisabType data),
                    cat_createdAt = Some now\<rparr>)
                (categories s) of
           Inl err \<Rightarrow> (Inl err, s)
         | Inr t \<Rightarrow> (Inr newId, s\<lparr>categories := t\<rparr>))"

text \<open>
  \<^verbatim>\<open>Partial<Category>\<close>: a patch names a field or not, and a field that it names
  holds a value or \<^verbatim>\<open>undefined\<close>.
\<close>

datatype 'a patched = NotNamed | Undefined | Named 'a

record CategoryPatch =
  cp_id :: "string patched"
  cp_name :: "string patched"
  cp_nameHindi :: "string patched"
  cp_color :: "string patched"
  cp_icon :: "string patched"
  cp_order :: "int patched"
  cp_isFixed :: "bool patched"
  cp_hisabType :: "HisabType patched"
  cp_createdAt :: "instant patched"

text \<open>
  The engine sets a field that the patch names with a value and deletes a field that
  the patch names with \<^verbatim>\<open>undefined\<close>.
\<close>

definition patchField :: "'a patched \<Rightarrow> 'a option \<Rightarrow> 'a option" where
  "patchField p old = (case p of NotNamed \<Rightarrow> old | Undefined \<Rightarrow> None | Named v \<Rightarrow> Some v)"

text \<open>The patch applied to the fields other than the primary key.\<close>

definition applyCategoryPatch :: "CategoryPatch \<Rightarrow> Category \<Rightarrow> Category" where
  "applyCategoryPatch p c =
     c\<lparr>cat_name := patchField (cp_name p) (cat_name c),
       cat_nameHindi := patchField (cp_nameHindi p) (cat_nameHindi c),
       cat_color := patchField (cp_color p) (cat_color c),
       cat_icon := patchField (cp_icon p) (cat_icon c),
       cat_order := patchField (cp_order p) (cat_order c),
       cat_isFixed := patchField (cp_isFixed p) (cat_isFixed c),
       cat_hisabType := patchField (cp_hisabType p) (cat_hisabType c),
       cat_createdAt := patchField (cp_createdAt p) (cat_createdAt c)\<rparr>"

text \<open>
  \<^verbatim>\<open>db.categories.update(id, data)\<close> modifies the record of the key, if there is one.
  A patch that gives the record another primary key makes the engine add the patched
  record under the new key, which runs the creating hook, and delete the old one; when
  the new key is taken the add fails, nothing is written and the call throws. A patch
  that deletes the primary key fails in the same way, since the record has no key to be
  added under.
\<close>

definition updateCategory ::
    "string \<Rightarrow> CategoryPatch \<Rightarrow> instant \<Rightarrow> store \<Rightarrow> (error + unit) \<times> store" where
  "updateCategory k p now s =
     (case tget cat_id k (categories s) of
        None \<Rightarrow> (Inr (), s)
      | Some c \<Rightarrow>
          (case cp_id p of
             NotNamed \<Rightarrow>
               (Inr (), s\<lparr>categories := tupdate cat_id k (applyCategoryPatch p) (categories s)\<rparr>)
           | Undefined \<Rightarrow> (Inl ModifyError, s)
           | Named k' \<Rightarrow>
               if k' = k
               then (Inr (),
                     s\<lparr>categories := tupdate cat_id k (applyCategoryPatch p) (categories s)\<rparr>)
               else
                 (case tadd cat_id
                         (categories_creating now ((applyCategoryPatch p c)\<lparr>cat_id := k'\<rparr>))
                         (categories s) of
                    Inl err \<Rightarrow> (Inl ModifyError, s)
                  | Inr t \<Rightarrow> (Inr (), s\<lparr>categories := tdelete cat_id k t\<rparr>))))"

text \<open>
  \<^verbatim>\<open>db.habits.where('categoryId').equals(id).modify({ categoryId: SHUBH_HISAB_ID })\<close>
\<close>

definition reassignHabits :: "string \<Rightarrow> Habit list \<Rightarrow> Habit list" where
  "reassignHabits k t =
     map (\<lambda>h. if hab_categoryId h = k then h\<lparr>hab_categoryId := SHUBH_HISAB_ID\<rparr> else h) t"

text \<open>
  \<open>deleteCategory\<close> makes its two writes outside any transaction, so each commits by
  itself. \<open>deleteCategory_commits\<close> lists the states of the store that the call commits, in
  order; \<open>deleteCategory\<close> ends in the last of them.
\<close>

definition deleteCategory_commits :: "string \<Rightarrow> store \<Rightarrow> error + store list" where
  "deleteCategory_commits k s =
     (if (case tget cat_id k (categories s) of
            Some category \<Rightarrow> cat_isFixed category = Some True
          | None \<Rightarrow> False)
      then Inl CannotDeleteFixedCategory
      else
        let s1 = s\<lparr>habits := reassignHabits k (habits s)\<rparr>;
            s2 = s1\<lparr>categories := tdelete cat_id k (categories s1)\<rparr>
        in Inr [s1, s2])"

definition deleteCategory :: "string \<Rightarrow> store \<Rightarrow> (error + unit) \<times> store" where
  "deleteCategory k s =
     (case deleteCategory_commits k s of
        Inl err \<Rightarrow> (Inl err, s)
      | Inr commits \<Rightarrow> (Inr (), last (s # commits)))"

definition reorderCategories :: "string list \<Rightarrow> store \<Rightarrow> store" where
  "reorderCategories orderedIds s =
     s\<lparr>categories :=
         fold (\<lambda>(i, k) t. tupdate cat_id k (\<lambda>c. c\<lparr>cat_order := Some (int i)\<rparr>) t)
           (enumerate 0 orderedIds) (categories s)\<rparr>"

subsection \<open>Habit operations\<close>

text \<open>\<^verbatim>\<open>Omit<Habit, 'id' | 'createdAt' | 'order' | 'isActive'>\<close>\<close>

record HabitData =
  hd_name :: string
  hd_description :: "string option"
  hd_image :: "string option"
  hd_categoryId :: string
  hd_type :: HabitType
  hd_options :: "string list option"
  hd_unit :: "string option"
  hd_target :: "int option"
  hd_interval :: TrackingInterval
  hd_trackingDay :: "nat option"
  hd_trackingDate :: "nat option"
  hd_reminderEnabled :: bool
  hd_reminderTime :: "string option"

text \<open>
  \<^verbatim>\<open>db.habits.where('categoryId').equals(data.categoryId).filter(h => h.isActive === true).last()\<close>:
  the index on \<open>categoryId\<close> lists the habits of one category by primary key, so
  \<open>last()\<close> is the active habit of the category with the greatest identifier.
\<close>

definition createHabit ::
    "HabitData \<Rightarrow> string \<Rightarrow> instant \<Rightarrow> store \<Rightarrow> (error + string) \<times> store" where
  "createHabit data newId now s =
     (let maxOrder =
            lastOf (filter (\<lambda>h. hab_isActive h = True)
                      (filter (\<lambda>h. hab_categoryId h = hd_categoryId data) (habits s)));
          order = (case maxOrder of Some m \<Rightarrow> hab_order m + 1 | None \<Rightarrow> 0)
      in case tadd hab_id
                (habits_creating now
                   \<lparr>hab_id = newId, hab_name = hd_name data,
                    hab_description = hd_description data, hab_image = hd_image data,
                    hab_categoryId = hd_categoryId data, hab_type = hd_type data,
                    hab_options = hd_options data, hab_unit = hd_unit data,
                    hab_target = hd_target data, hab_interval = Some (hd_interval data),
                    hab_trackingDay = hd_trackingDay data,
                    hab_trackingDate = hd_trackingDate data,
                    hab_reminderEnabled = Some (hd_reminderEnabled data),
                    hab_reminderTime = hd_reminderTime data,
                    hab_order = order, hab_isActive = True, hab_createdAt = now\<rparr>)
                (habits s) of
           Inl err \<Rightarrow> (Inl err, s)
         | Inr t \<Rightarrow> (Inr newId, s\<lparr>habits := t\<rparr>))"

definition archiveHabit :: "string \<Rightarrow> store \<Rightarrow> store" where
  "archiveHabit k s = s\<lparr>habits := tupdate hab_id k (\<lambda>h. h\<lparr>hab_isActive := False\<rparr>) (habits s)\<rparr>"

definition enableHabit :: "string \<Rightarrow> store \<Rightarrow> store" where
  "enableHabit k s = s\<lparr>habits := tupdate hab_id k (\<lambda>h. h\<lparr>hab_isActive := True\<rparr>) (habits s)\<rparr>"

text \<open>\<open>deleteHabit\<close> runs in one transaction: the call commits one state.\<close>

definition deleteHabit :: "string \<Rightarrow> bool \<Rightarrow> store \<Rightarrow> store" where
  "deleteHabit k deleteEntries s =
     (let s1 = (if deleteEntries
                then s\<lparr>logEntries := filter (\<lambda>e. log_habitId e \<noteq> k) (logEntries s)\<rparr>
                else s)
      in s1\<lparr>habits := tdelete hab_id k (habits s1)\<rparr>)"

definition deleteHabit_commits :: "string \<Rightarrow> bool \<Rightarrow> store \<Rightarrow> store list" where
  "deleteHabit_commits k deleteEntries s = [deleteHabit k deleteEntries s]"

definition reorderHabits :: "string \<Rightarrow> string list \<Rightarrow> store \<Rightarrow> store" where
  "reorderHabits categoryId orderedIds s =
     s\<lparr>habits :=
         fold (\<lambda>(i, k) t. tupdate hab_id k (\<lambda>h. h\<lparr>hab_order := int i\<rparr>) t)
           (enumerate 0 orderedIds) (habits s)\<rparr>"

subsection \<open>Schema version 2\<close>

text \<open>
  The upgrade of version 2, record by record. \<^verbatim>\<open>'f' in record\<close> is false when the field
  reads \<^term>\<open>None\<close>; writing \<^verbatim>\<open>undefined\<close> to such a field leaves \<^term>\<open>None\<close>.
\<close>

definition upgradeCategory :: "Category \<Rightarrow> Category" where
  "upgradeCategory category =
     (if cat_hisabType category = None then category\<lparr>cat_hisabType := Some Shubh\<rparr>
      else category)"

definition upgradeHabit :: "Habit \<Rightarrow> Habit" where
  "upgradeHabit habit =
     (let h1 = (if hab_interval habit = None then habit\<lparr>hab_interval := Some Daily\<rparr>
                else habit);
          h2 = (if hab_trackingDay h1 = None then h1\<lparr>hab_trackingDay := None\<rparr> else h1);
          h3 = (if hab_trackingDate h2 = None then h2\<lparr>hab_trackingDate := None\<rparr> else h2);
          h4 = (if hab_reminderEnabled h3 = None then h3\<lparr>hab_reminderEnabled := Some False\<rparr>
                else h3);
          h5 = (if hab_reminderTime h4 = None then h4\<lparr>hab_reminderTime := None\<rparr> else h4)
      in h5)"

definition upgrade_v2 :: "store \<Rightarrow> store" where
  "upgrade_v2 s =
     s\<lparr>categories := map upgradeCategory (categories s),
       habits := map upgradeHabit (habits s)\<rparr>"

text \<open>
  Opening the database whose stored schema version is \<open>storedVersion\<close> (0 when there is no
  database yet): the engine runs the upgrade of every registered version above the stored
  one, here that of version 2 on a version 1 store, and refuses a store of a later version.
\<close>

definition openDb :: "nat \<Rightarrow> store \<Rightarrow> error + store" where
  "openDb storedVersion s =
     (if CURRENT_DB_VERSION < storedVersion then Inl VersionError
      else if 0 < storedVersion \<and> storedVersion < 2 then Inr (upgrade_v2 s)
      else Inr s)"

subsection \<open>Export and import\<close>

text \<open>
  \<open>ExportData\<close> as \<open>importAllData\<close> may receive it from a parsed file: a top-level field
  that the file lacks is \<^term>\<open>None\<close>.
\<close>

record ExportData =
  ex_version :: "string option"
  ex_schemaVersion :: "int option"
  ex_exportedAt :: "string option"
  ex_categories :: "Category list option"
  ex_habits :: "Habit list option"
  ex_logEntries :: "LogEntry list option"
  ex_settings :: "Setting list option"

text \<open>\<open>exportedAt\<close> is the ISO-8601 text of the clock reading, an argument here.\<close>

definition exportAllData :: "string \<Rightarrow> store \<Rightarrow> ExportData" where
  "exportAllData exportedAt s =
     \<lparr>ex_version = Some CURRENT_APP_VERSION,
      ex_schemaVersion = Some (int CURRENT_DB_VERSION),
      ex_exportedAt = Some exportedAt,
      ex_categories = Some (categories s),
      ex_habits = Some (habits s),
      ex_logEntries = Some (logEntries s),
      ex_settings = Some (settings s)\<rparr>"

text \<open>A transaction block: when the body throws, none of its writes is kept.\<close>

definition transaction ::
    "(store \<Rightarrow> (error + unit) \<times> store) \<Rightarrow> store \<Rightarrow> (error + unit) \<times> store" where
  "transaction body s =
     (case body s of
        (Inl err, _) \<Rightarrow> (Inl err, s)
      | (Inr u, s') \<Rightarrow> (Inr u, s'))"

definition clearTables :: "store \<Rightarrow> store" where
  "clearTables s = s\<lparr>categories := [], habits := [], logEntries := [], settings := []\<rparr>"

text \<open>
  The body of \<open>importAllData\<close>. The comparison of the schema versions only logs a
  warning. \<^verbatim>\<open>bulkPut(undefined)\<close> throws a \<^verbatim>\<open>TypeError\<close> when it reads the length of its
  argument. The records go in as they are; the creating hooks run on each of them, and
  the updating hook of the log entries on a record whose key the table already holds.
\<close>

definition importBody :: "ExportData \<Rightarrow> instant \<Rightarrow> store \<Rightarrow> (error + unit) \<times> store" where
  "importBody data now s =
     (let importedSchemaVersion =
            (case ex_schemaVersion data of None \<Rightarrow> 1 | Some v \<Rightarrow> if v = 0 then 1 else v);
          warned = (importedSchemaVersion < int CURRENT_DB_VERSION);
          s0 = clearTables s
      in case ex_categories data of
           None \<Rightarrow> (Inl TypeError, s0)
         | Some cs \<Rightarrow>
        (case ex_habits data of
           None \<Rightarrow> (Inl TypeError, s0)
         | Some hs \<Rightarrow>
        (case ex_logEntries data of
           None \<Rightarrow> (Inl TypeError, s0)
         | Some ls \<Rightarrow>
        (case ex_settings data of
           None \<Rightarrow> (Inl TypeError, s0)
         | Some ss \<Rightarrow>
             (Inr (),
              seedDefaultCategories now
                (s0\<lparr>categories :=
                      tbulkPut cat_id (categories_creating now) (\<lambda>c. c) cs (categories s0),
                    habits := tbulkPut hab_id (habits_creating now) (\<lambda>h. h) hs (habits s0),
                    logEntries :=
                      tbulkPut log_id (logEntries_creating now)
                        (logEntries_updating now (\<lambda>e. e)) ls (logEntries s0),
                    settings :=
                      tbulkPut set_key (\<lambda>r. r) (\<lambda>r. r) ss (settings s0)\<rparr>))))))"

definition importAllData :: "ExportData \<Rightarrow> instant \<Rightarrow> store \<Rightarrow> (error + unit) \<times> store" where
  "importAllData data now s = transaction (importBody data now) s"

text \<open>
  The guard of \<open>handleImport\<close> on the settings page, which reads the file and calls
  \<open>importAllData\<close>: a file whose \<open>version\<close>, \<open>categories\<close> or \<open>habits\<close> is missing (or whose
  version is the empty string) is refused before the database is touched. \<open>confirmed\<close> is
  the answer of the user to \<^verbatim>\<open>window.confirm\<close>.
\<close>

definition handleImport ::
    "ExportData \<Rightarrow> bool \<Rightarrow> instant \<Rightarrow> store \<Rightarrow> (error + unit) \<times> store" where
  "handleImport data confirmed now s =
     (if ex_version data = None \<or> ex_version data = Some [] \<or> ex_categories data = None
         \<or> ex_habits data = None
      then (Inl InvalidBackupFile, s)
      else if confirmed then importAllData data now s
      else (Inr (), s))"

subsection \<open>Sequences of calls\<close>

text \<open>A sequence of calls of \<open>logHabit\<close> and \<open>skipHabit\<close>, each with what it read from the
  random source and the clock.\<close>

datatype log_call =
    LogHabit string string logval "string option" string instant
  | SkipHabit string string string string instant

fun call_pair :: "log_call \<Rightarrow> string \<times> string" where
  "call_pair (LogHabit h d v n i t) = (h, d)"
| "call_pair (SkipHabit h d r i t) = (h, d)"

fun run_call :: "log_call \<Rightarrow> store \<Rightarrow> (error + string) \<times> store" where
  "run_call (LogHabit h d v n i t) s = logHabit h d v n i t s"
| "run_call (SkipHabit h d r i t) s = skipHabit h d r i t s"

definition run_calls :: "log_call list \<Rightarrow> store \<Rightarrow> store" where
  "run_calls cs s = fold (\<lambda>c s'. snd (run_call c s')) cs s"

datatype cat_op =
    CreateCategory CategoryData string instant
  | UpdateCategory string CategoryPatch instant
  | DeleteCategory string
  | ReorderCategories "string list"

fun run_cat_op :: "cat_op \<Rightarrow> store \<Rightarrow> store" where
  "run_cat_op (CreateCategory d i t) s = snd (createCategory d i t s)"
| "run_cat_op (UpdateCategory k p t) s = snd (updateCategory k p t s)"
| "run_cat_op (DeleteCategory k) s = snd (deleteCategory k s)"
| "run_cat_op (ReorderCategories ks) s = reorderCategories ks s"

definition run_cat_ops :: "cat_op list \<Rightarrow> store \<Rightarrow> store" where
  "run_cat_ops ops s = fold run_cat_op ops s"

text \<open>
  An operation keeps the fixed categories when it is not an update, or when it is an
  update of a category \<open>c\<close> that leaves \<open>c\<close> fixed if it was and not fixed if it was
  not, and that, if \<open>c\<close> is fixed, does not patch its identifier (but with its own
  value) and leaves its group tag as it is.
\<close>

fun keeps_fixed :: "cat_op \<Rightarrow> store \<Rightarrow> bool" where
  "keeps_fixed (UpdateCategory k p t) s =
     (case tget cat_id k (categories s) of
        None \<Rightarrow> True
      | Some c \<Rightarrow>
          ((cat_isFixed (applyCategoryPatch p c) = Some True) = (cat_isFixed c = Some True))
          \<and> (cat_isFixed c = Some True \<longrightarrow>
                (cp_id p = NotNamed \<or> cp_id p = Named k)
                \<and> cat_hisabType (applyCategoryPatch p c) = cat_hisabType c))"
| "keeps_fixed _ s = True"

text \<open>Every operation of a sequence keeps the fixed categories of the store it meets.\<close>

fun all_keep_fixed :: "cat_op list \<Rightarrow> store \<Rightarrow> bool" where
  "all_keep_fixed [] s = True"
| "all_keep_fixed (op # ops) s = (keeps_fixed op s \<and> all_keep_fixed ops (run_cat_op op s))"

subsection \<open>Predicates and measures of the statements\<close>

text \<open>The entries a table holds for a pair of habit and date.\<close>

definition entriesFor :: "string \<Rightarrow> string \<Rightarrow> LogEntry list \<Rightarrow> LogEntry list" where
  "entriesFor habitId date t = filter (\<lambda>e. log_habitId e = habitId \<and> log_date e = date) t"

definition insertEntries :: "LogEntry list \<Rightarrow> LogEntry list" where
  "insertEntries es = fold (tput log_id) es []"

definition log_inv :: "LogEntry list \<Rightarrow> bool" where
  "log_inv t = (wf_table log_id t \<and> (\<forall>h d. length (entriesFor h d t) \<le> 1))"

definition wf_store :: "store \<Rightarrow> bool" where
  "wf_store s =
     (wf_table cat_id (categories s) \<and> wf_table hab_id (habits s)
      \<and> wf_table log_id (logEntries s) \<and> wf_table set_key (settings s))"

text \<open>The store in which every record carries the stamps of the creating hooks.\<close>

definition restamp :: "instant \<Rightarrow> store \<Rightarrow> store" where
  "restamp now s =
     s\<lparr>categories := map (categories_creating now) (categories s),
       habits := map (habits_creating now) (habits s),
       logEntries := map (logEntries_creating now) (logEntries s)\<rparr>"

text \<open>The fixed categories of a table, in the order of the table, each with its group tag.\<close>

definition fixedCategories :: "Category list \<Rightarrow> (string \<times> HisabType option) list" where
  "fixedCategories t =
     map (\<lambda>c. (cat_id c, cat_hisabType c)) (filter (\<lambda>c. cat_isFixed c = Some True) t)"

definition fixed_inv :: "Category list \<Rightarrow> bool" where
  "fixed_inv t =
     (fixedCategories t = [(ASHUBH_HISAB_ID, Some Ashubh), (SHUBH_HISAB_ID, Some Shubh)])"

subsection \<open>Auxiliary notions of the proofs\<close>

text \<open>What an upsert does to the table, whichever of the two functions runs.\<close>

definition upsert ::
    "(LogEntry \<Rightarrow> LogEntry) \<Rightarrow> LogEntry \<Rightarrow> string \<Rightarrow> string \<Rightarrow> store \<Rightarrow> (error + string) \<times> store" where
  "upsert f r h d s =
     (case getLogEntry h d (logEntries s) of
        Some existing \<Rightarrow>
          (Inr (log_id existing),
           s\<lparr>logEntries := tupdate log_id (log_id existing) f (logEntries s)\<rparr>)
      | None \<Rightarrow>
          (case tadd log_id r (logEntries s) of
             Inl err \<Rightarrow> (Inl err, s)
           | Inr t \<Rightarrow> (Inr (log_id r), s\<lparr>logEntries := t\<rparr>)))"

definition keeps_pair :: "(LogEntry \<Rightarrow> LogEntry) \<Rightarrow> bool" where
  "keeps_pair f = (\<forall>r. log_id (f r) = log_id r \<and> log_habitId (f r) = log_habitId r
                      \<and> log_date (f r) = log_date r)"

definition owns :: "string \<Rightarrow> string \<Rightarrow> string \<Rightarrow> LogEntry list \<Rightarrow> bool" where
  "owns i h d t = (\<exists>e\<in>set t. log_id e = i \<and> log_habitId e = h \<and> log_date e = d)"

subsection \<open>Concrete stores, records and calls\<close>

definition entryA :: LogEntry where
  "entryA = \<lparr>log_id = ''mh0a-aaaaaaa'', log_habitId = ''h1'', log_date = ''2026-01-05'',
     log_val = VBool True, log_note = None, log_skippedReason = None,
     log_createdAt = 10, log_updatedAt = 10\<rparr>"

definition entryB :: LogEntry where
  "entryB = \<lparr>log_id = ''mh0b-bbbbbbb'', log_habitId = ''h1'', log_date = ''2026-01-07'',
     log_val = VBool False, log_note = None, log_skippedReason = None,
     log_createdAt = 20, log_updatedAt = 20\<rparr>"

definition entryC :: LogEntry where
  "entryC = \<lparr>log_id = ''mh0c-ccccccc'', log_habitId = ''h2'', log_date = ''2026-01-06'',
     log_val = VNum 15, log_note = Some ''ok'', log_skippedReason = None,
     log_createdAt = 30, log_updatedAt = 30\<rparr>"

definition storeA :: store where
  "storeA = emptyStore\<lparr>logEntries := [entryA, entryB]\<rparr>"

definition call1 :: log_call where
  "call1 = LogHabit ''h1'' ''2026-01-05'' (VBool True) None ''mh0a-aaaaaaa'' 10"

definition call2 :: log_call where
  "call2 = SkipHabit ''h2'' ''2026-01-05'' ''fasting'' ''mh0b-bbbbbbb'' 20"

definition call3 :: log_call where
  "call3 = SkipHabit ''h1'' ''2026-01-05'' ''travelling'' ''mh0c-ccccccc'' 30"

definition habitV1 :: Habit where
  "habitV1 =
     \<lparr>hab_id = ''mh01-habit01'', hab_name = ''Mala'', hab_description = None,
      hab_image = None, hab_categoryId = ''shubh-hisab'', hab_type = HCount,
      hab_options = None, hab_unit = Some ''times'', hab_target = Some 108,
      hab_interval = None, hab_trackingDay = None, hab_trackingDate = None,
      hab_reminderEnabled = None, hab_reminderTime = None,
      hab_order = 0, hab_isActive = True, hab_createdAt = 100\<rparr>"

definition storeV1 :: store where
  "storeV1 = emptyStore\<lparr>habits := [habitV1]\<rparr>"

definition snapshotV1 :: ExportData where
  "snapshotV1 =
     \<lparr>ex_version = Some ''0.9.0'', ex_schemaVersion = Some 1,
      ex_exportedAt = Some ''2025-12-30T08:00:00.000Z'',
      ex_categories = Some [], ex_habits = Some [habitV1], ex_logEntries = Some [],
      ex_settings = Some []\<rparr>"

definition habitA :: Habit where
  "habitA =
     \<lparr>hab_id = ''mh0a-habit0a'', hab_name = ''Puja'', hab_description = None,
      hab_image = None, hab_categoryId = ''shubh-hisab'', hab_type = HBoolean,
      hab_options = None, hab_unit = None, hab_target = None,
      hab_interval = Some Daily, hab_trackingDay = None, hab_trackingDate = None,
      hab_reminderEnabled = Some False, hab_reminderTime = None,
      hab_order = 0, hab_isActive = True, hab_createdAt = 100\<rparr>"

definition habitB :: Habit where
  "habitB = habitA\<lparr>hab_id := ''mh0b-habit0b'', hab_name := ''Katha'', hab_order := 1,
     hab_createdAt := 200\<rparr>"

definition habitDataC :: HabitData where
  "habitDataC =
     \<lparr>hd_name = ''Seva'', hd_description = None, hd_image = None,
      hd_categoryId = ''shubh-hisab'', hd_type = HBoolean, hd_options = None,
      hd_unit = None, hd_target = None, hd_interval = Daily, hd_trackingDay = None,
      hd_trackingDate = None, hd_reminderEnabled = False, hd_reminderTime = None\<rparr>"

text \<open>Two habits created in this order, then dragged into the opposite order.\<close>

definition storeReordered :: store where
  "storeReordered =
     reorderHabits ''shubh-hisab'' [''mh0b-habit0b'', ''mh0a-habit0a'']
       (emptyStore\<lparr>habits := [habitA, habitB]\<rparr>)"

definition userCategory :: Category where
  "userCategory =
     \<lparr>cat_id = ''mh0c-categ01'', cat_name = Some ''Study'', cat_nameHindi = None,
      cat_color = Some ''#123456'', cat_icon = Some ''S'', cat_order = Some 2,
      cat_isFixed = Some False, cat_hisabType = Some Shubh, cat_createdAt = Some 50\<rparr>"

definition habitU :: Habit where
  "habitU = habitA\<lparr>hab_categoryId := ''mh0c-categ01''\<rparr>"

definition storeC :: store where
  "storeC = emptyStore\<lparr>categories := [ashubhCategory 1, userCategory, shubhCategory 1],
     habits := [habitU]\<rparr>"

definition emptyPatch :: CategoryPatch where
  "emptyPatch = \<lparr>cp_id = NotNamed, cp_name = NotNamed, cp_nameHindi = NotNamed,
     cp_color = NotNamed, cp_icon = NotNamed, cp_order = NotNamed, cp_isFixed = NotNamed,
     cp_hisabType = NotNamed, cp_createdAt = NotNamed\<rparr>"

definition studyData :: CategoryData where
  "studyData = \<lparr>cd_name = ''Study'', cd_nameHindi = None, cd_color = ''#123456'',
     cd_icon = ''S'', cd_hisabType = Shubh\<rparr>"

definition catOps :: "cat_op list" where
  "catOps =
     [CreateCategory studyData ''mh0d-categ02'' 7,
      UpdateCategory ''mh0d-categ02''
        (emptyPatch\<lparr>cp_name := Named ''Seva'', cp_hisabType := Named Ashubh,
           cp_isFixed := Undefined\<rparr>) 8,
      UpdateCategory ''mh0d-categ02'' (emptyPatch\<lparr>cp_id := Named ''mh0e-categ03''\<rparr>) 9,
      UpdateCategory ''shubh-hisab''
        (emptyPatch\<lparr>cp_id := Named ''shubh-hisab'', cp_name := Named ''Good'',
           cp_isFixed := Named True\<rparr>) 10,
      ReorderCategories [''mh0e-categ03'', ''shubh-hisab'', ''ashubh-hisab''],
      DeleteCategory ''shubh-hisab'',
      DeleteCategory ''mh0e-categ03'']"

definition storeR :: store where
  "storeR = \<lparr>categories = [ashubhCategory 1, shubhCategory 1], habits = [habitA],
     logEntries = [entryA],
     settings = [\<lparr>set_key = ''hasSeededCategories'', set_val = SBool True\<rparr>]\<rparr>"

text \<open>A file with the four tables and none of \<open>version\<close>, \<open>schemaVersion\<close>, \<open>exportedAt\<close>.\<close>

definition snapshotBare :: ExportData where
  "snapshotBare =
     \<lparr>ex_version = None, ex_schemaVersion = None, ex_exportedAt = None,
      ex_categories = Some [], ex_habits = Some [], ex_logEntries = Some [],
      ex_settings = Some []\<rparr>"

definition snapshotNoSettings :: ExportData where
  "snapshotNoSettings =
     \<lparr>ex_version = Some ''1.0.0'', ex_schemaVersion = Some 2,
      ex_exportedAt = Some ''2026-01-05T10:00:00.000Z'',
      ex_categories = Some [], ex_habits = Some [], ex_logEntries = Some [entryC],
      ex_settings = None\<rparr>"

section \<open>Properties\<close>

subsection \<open>Tables\<close>

lemma wf_table_distinct: "wf_table key t \<Longrightarrow> distinct (map key t)"
  unfolding wf_table_def by (induction t) auto

lemma wf_table_sorted: "wf_table key t \<Longrightarrow> sorted (map key t)"
  unfolding wf_table_def by (induction t) (auto simp: less_imp_le)

lemma set_tput_wf: "wf_table key t \<Longrightarrow> set (tput key r t) = insert r {x \<in> set t. key x \<noteq> key r}"
  unfolding wf_table_def
proof (induction t)
  case Nil
  then show ?case by simp
next
  case (Cons x t)
  then have ih: "set (tput key r t) = insert r {y \<in> set t. key y \<noteq> key r}"
    and above: "\<forall>y\<in>set t. key x < key y" by simp_all
  show ?case
  proof (cases "key r < key x")
    case True
    with above have "\<forall>y\<in>set t. key y \<noteq> key r" by (metis less_trans less_irrefl)
    with True show ?thesis by auto
  next
    case False
    show ?thesis
    proof (cases "key r = key x")
      case True
      with above have "\<forall>y\<in>set t. key y \<noteq> key r" by (metis less_irrefl)
      with True show ?thesis by auto
    next
      case ne: False
      with False have "tput key r (x # t) = x # tput key r t" by simp
      then have "set (tput key r (x # t)) = insert x (insert r {y \<in> set t. key y \<noteq> key r})"
        by (simp add: ih)
      also have "\<dots> = insert r {y \<in> set (x # t). key y \<noteq> key r}"
        using ne by auto
      finally show ?thesis .
    qed
  qed
qed

lemma set_tput_subset: "set (tput key r t) \<subseteq> insert r (set t)"
  by (induction t) auto

lemma wf_tput: "wf_table key t \<Longrightarrow> wf_table key (tput key r t)"
  unfolding wf_table_def
proof (induction t)
  case Nil
  then show ?case by simp
next
  case (Cons x t)
  have sub: "set (tput key r t) \<subseteq> insert r (set t)" by (rule set_tput_subset)
  show ?case
  proof (cases "key r < key x")
    case True
    with Cons.prems show ?thesis by (auto intro: less_trans)
  next
    case False
    show ?thesis
    proof (cases "key r = key x")
      case True
      with Cons.prems show ?thesis by auto
    next
      case ne: False
      with False have "key x < key r" by auto
      with Cons False ne sub show ?thesis by auto
    qed
  qed
qed

lemma wf_tupdate:
  "(\<And>r. key (f r) = key r) \<Longrightarrow> wf_table key t \<Longrightarrow> wf_table key (tupdate key k f t)"
  unfolding wf_table_def tupdate_def by (induction t) auto

lemma wf_tdelete: "wf_table key t \<Longrightarrow> wf_table key (tdelete key k t)"
  unfolding wf_table_def tdelete_def by (induction t) auto

lemma tget_None_iff: "tget key k t = None \<longleftrightarrow> k \<notin> key ` set t"
  unfolding tget_def by (auto simp: find_None_iff)

lemma tget_Some_mem: "tget key k t = Some r \<Longrightarrow> r \<in> set t \<and> key r = k"
  unfolding tget_def by (auto simp: find_Some_iff)

lemma tget_mem_wf: "wf_table key t \<Longrightarrow> r \<in> set t \<Longrightarrow> tget key (key r) t = Some r"
  unfolding tget_def wf_table_def by (induction t) auto

lemma filter_tput_new:
  "key r \<notin> key ` set t \<Longrightarrow>
     length (filter P (tput key r t)) = (if P r then 1 else 0) + length (filter P t)"
  by (induction t) auto

subsection \<open>Range scans of the log\<close>

lemma set_tput_new: "key r \<notin> key ` set t \<Longrightarrow> set (tput key r t) = insert r (set t)"
  by (induction t) auto

lemma wf_fold_tput: "wf_table key t \<Longrightarrow> wf_table key (fold (tput key) rs t)"
  by (induction rs arbitrary: t) (auto simp: wf_tput)

lemma set_fold_tput:
  "distinct (map key rs) \<Longrightarrow> key ` set rs \<inter> key ` set t = {} \<Longrightarrow>
     set (fold (tput key) rs t) = set rs \<union> set t"
proof (induction rs arbitrary: t)
  case Nil
  then show ?case by simp
next
  case (Cons r rs)
  from Cons.prems have new: "key r \<notin> key ` set t" by auto
  then have st: "set (tput key r t) = insert r (set t)" by (rule set_tput_new)
  from Cons.prems have "key ` set rs \<inter> key ` set (tput key r t) = {}"
    unfolding st by auto
  with Cons have "set (fold (tput key) rs (tput key r t)) = set rs \<union> set (tput key r t)"
    by simp
  with st show ?case by simp
qed

lemma wf_table_Nil: "wf_table key []"
  by (simp add: wf_table_def)

lemma wf_table_unique:
  assumes "wf_table key xs" "wf_table key ys" "set xs = set ys"
  shows "xs = ys"
proof -
  have inj: "inj_on key (set xs \<union> set ys)"
    using wf_table_distinct [OF assms(1)] assms(3) by (simp add: distinct_map)
  show ?thesis
    by (rule map_sorted_distinct_set_unique [OF inj])
       (simp_all add: assms wf_table_sorted wf_table_distinct)
qed

lemma insertEntries_perm:
  assumes "distinct (map log_id es)" "mset es' = mset es"
  shows "insertEntries es' = insertEntries es"
proof -
  have "mset (map log_id es') = mset (map log_id es)" using assms(2) by simp
  then have d': "distinct (map log_id es')"
    using assms(1) by (metis mset_eq_imp_distinct_iff)
  have "set es' = set es" using assms(2) by (rule mset_eq_setD)
  then have "set (insertEntries es') = set (insertEntries es)"
    unfolding insertEntries_def using assms(1) d' by (simp add: set_fold_tput)
  then show ?thesis
    unfolding insertEntries_def
    by (intro wf_table_unique [of log_id] wf_fold_tput wf_table_Nil)
qed

lemma set_insertEntries: "distinct (map log_id es) \<Longrightarrow> set (insertEntries es) = set es"
  unfolding insertEntries_def by (simp add: set_fold_tput)

lemma set_getLogEntriesInRange:
  "set (getLogEntriesInRange a b s) = {e \<in> set (logEntries s). a \<le> log_date e \<and> log_date e \<le> b}"
  unfolding getLogEntriesInRange_def date_index_def by auto

text \<open>
  Claim C9. For dates \<open>a \<le> b\<close>, \<open>getLogEntriesInRange a b\<close> returns exactly the stored
  entries whose date lies between \<open>a\<close> and \<open>b\<close>, both ends included. The table reached
  by inserting entries of distinct identifiers does not depend on the order of insertion,
  so neither does the result: inserting a permutation \<open>es'\<close> of \<open>es\<close> gives the same
  answer, entry for entry.
\<close>

theorem getLogEntriesInRange_exact:
  assumes "a \<le> b" "distinct (map log_id es)" "mset es' = mset es"
  shows "set (getLogEntriesInRange a b s)
           = {e \<in> set (logEntries s). a \<le> log_date e \<and> log_date e \<le> b}
       \<and> set (getLogEntriesInRange a b (s\<lparr>logEntries := insertEntries es\<rparr>))
           = {e \<in> set es. a \<le> log_date e \<and> log_date e \<le> b}
       \<and> getLogEntriesInRange a b (s\<lparr>logEntries := insertEntries es'\<rparr>)
           = getLogEntriesInRange a b (s\<lparr>logEntries := insertEntries es\<rparr>)"
  using assms
  by (simp add: set_getLogEntriesInRange set_insertEntries insertEntries_perm [of es es'])

text \<open>Three entries inserted in two orders, and the range of 5 and 6 January.\<close>

theorem getLogEntriesInRange_exact_witness:
  "''2026-01-05'' \<le> ''2026-01-06''
   \<and> distinct (map log_id [entryA, entryB, entryC])
   \<and> mset [entryC, entryA, entryB] = mset [entryA, entryB, entryC]
   \<and> getLogEntriesInRange ''2026-01-05'' ''2026-01-06''
         (emptyStore\<lparr>logEntries := insertEntries [entryC, entryA, entryB]\<rparr>)
       = [entryA, entryC]
   \<and> getLogEntriesInRange ''2026-01-05'' ''2026-01-06''
         (emptyStore\<lparr>logEntries := insertEntries [entryA, entryB, entryC]\<rparr>)
       = [entryA, entryC]"
proof -
  have a: "''2026-01-05'' \<le> ''2026-01-06''" by simp
  have b: "distinct (map log_id [entryA, entryB, entryC])"
    by (simp add: entryA_def entryB_def entryC_def)
  have c: "mset [entryC, entryA, entryB] = mset [entryA, entryB, entryC]" by simp
  have d: "getLogEntriesInRange ''2026-01-05'' ''2026-01-06''
         (emptyStore\<lparr>logEntries := insertEntries [entryA, entryB, entryC]\<rparr>)
       = [entryA, entryC]"
    by (simp add: getLogEntriesInRange_def date_index_def insertEntries_def emptyStore_def
        entryA_def entryB_def entryC_def)
  from getLogEntriesInRange_exact [OF a b c, of emptyStore] a b c d show ?thesis by simp
qed

subsection \<open>Upsert by habit and date\<close>

lemma getLogEntry_Some:
  "getLogEntry h d t = Some e \<Longrightarrow> e \<in> set t \<and> log_habitId e = h \<and> log_date e = d"
proof -
  assume a: "getLogEntry h d t = Some e"
  then obtain ys where "filter (\<lambda>e. log_habitId e = h \<and> log_date e = d) t = e # ys"
    unfolding getLogEntry_def firstOf_def by (auto split: list.splits)
  then have "e \<in> set (filter (\<lambda>e. log_habitId e = h \<and> log_date e = d) t)" by simp
  then show ?thesis by simp
qed

lemma getLogEntry_None: "getLogEntry h d t = None \<longleftrightarrow> entriesFor h d t = []"
  unfolding getLogEntry_def firstOf_def entriesFor_def by (auto split: list.splits)

lemma entriesFor_tupdate:
  assumes "\<And>r. log_habitId (f r) = log_habitId r" "\<And>r. log_date (f r) = log_date r"
  shows "entriesFor h d (tupdate log_id k f t)
           = map (\<lambda>r. if log_id r = k then f r else r) (entriesFor h d t)"
  unfolding entriesFor_def tupdate_def filter_map
  by (rule arg_cong [where f = "map _"], rule filter_cong) (auto simp: assms)

lemma entriesFor_tadd:
  assumes "tadd log_id r t = Inr t'"
  shows "length (entriesFor h d t')
           = (if log_habitId r = h \<and> log_date r = d then 1 else 0) + length (entriesFor h d t)"
proof -
  from assms have new: "log_id r \<notin> log_id ` set t" and t': "t' = tput log_id r t"
    unfolding tadd_def by (auto split: option.splits simp: tget_None_iff)
  show ?thesis unfolding t' entriesFor_def by (rule filter_tput_new [OF new])
qed

lemma wf_tadd: "tadd key r t = Inr t' \<Longrightarrow> wf_table key t \<Longrightarrow> wf_table key t'"
  unfolding tadd_def by (auto split: option.splits simp: wf_tput)

lemma set_tadd: "tadd key r t = Inr t' \<Longrightarrow> set t' = insert r (set t)"
  unfolding tadd_def by (auto split: option.splits simp: tget_None_iff set_tput_new)

lemma run_call_upsert:
  "\<exists>f r. keeps_pair f \<and> log_habitId r = fst (call_pair c) \<and> log_date r = snd (call_pair c)
       \<and> run_call c s = upsert f r (fst (call_pair c)) (snd (call_pair c)) s"
proof (cases c)
  case (LogHabit h d v n i t)
  show ?thesis
    apply (rule exI [where x = "logEntries_updating t
                    (\<lambda>e. e\<lparr>log_val := v, log_note := n, log_updatedAt := t\<rparr>)"])
    apply (rule exI [where x = "logEntries_creating t
                     \<lparr>log_id = i, log_habitId = h, log_date = d, log_val = v,
                      log_note = n, log_skippedReason = None,
                      log_createdAt = t, log_updatedAt = t\<rparr>"])
    by (simp add: LogHabit logHabit_def upsert_def keeps_pair_def logEntries_updating_def
        logEntries_creating_def cong: option.case_cong sum.case_cong)
next
  case (SkipHabit h d r i t)
  show ?thesis
    apply (rule exI [where x = "logEntries_updating t
                    (\<lambda>e. e\<lparr>log_skippedReason := Some r, log_updatedAt := t\<rparr>)"])
    apply (rule exI [where x = "logEntries_creating t
                     \<lparr>log_id = i, log_habitId = h, log_date = d,
                      log_val = VBool False, log_note = None,
                      log_skippedReason = Some r,
                      log_createdAt = t, log_updatedAt = t\<rparr>"])
    by (simp add: SkipHabit skipHabit_def upsert_def keeps_pair_def logEntries_updating_def
        logEntries_creating_def cong: option.case_cong sum.case_cong)
qed

lemma upsert_inv:
  assumes inv: "log_inv (logEntries s)" and kp: "keeps_pair f"
    and r: "log_habitId r = h" "log_date r = d"
  shows "log_inv (logEntries (snd (upsert f r h d s)))"
proof (cases "getLogEntry h d (logEntries s)")
  case (Some existing)
  have "wf_table log_id (tupdate log_id (log_id existing) f (logEntries s))"
    using inv kp by (intro wf_tupdate) (auto simp: keeps_pair_def log_inv_def)
  moreover have "length (entriesFor h' d' (tupdate log_id (log_id existing) f (logEntries s)))
        = length (entriesFor h' d' (logEntries s))" for h' d'
    using kp by (subst entriesFor_tupdate) (auto simp: keeps_pair_def)
  ultimately show ?thesis using inv Some by (simp add: upsert_def log_inv_def)
next
  case None
  show ?thesis
  proof (cases "tadd log_id r (logEntries s)")
    case (Inl err)
    with None inv show ?thesis by (simp add: upsert_def)
  next
    case (Inr t)
    have none: "entriesFor h d (logEntries s) = []" using None by (simp add: getLogEntry_None)
    have "length (entriesFor h' d' t) \<le> 1" for h' d'
    proof (cases "h' = h \<and> d' = d")
      case True
      then show ?thesis using entriesFor_tadd [OF Inr, of h d] r none by simp
    next
      case False
      then show ?thesis using entriesFor_tadd [OF Inr, of h' d'] r inv
        by (auto simp: log_inv_def)
    qed
    moreover have "wf_table log_id t" using wf_tadd [OF Inr] inv by (simp add: log_inv_def)
    ultimately show ?thesis using None Inr by (simp add: upsert_def log_inv_def)
  qed
qed

lemma run_call_inv: "log_inv (logEntries s) \<Longrightarrow> log_inv (logEntries (snd (run_call c s)))"
  using run_call_upsert [of c s] upsert_inv by (metis prod.collapse)

lemma run_calls_inv: "log_inv (logEntries s) \<Longrightarrow> log_inv (logEntries (run_calls cs s))"
  unfolding run_calls_def by (induction cs arbitrary: s) (auto simp: run_call_inv)

lemma upsert_owns:
  assumes "owns i h' d' (logEntries s)" "keeps_pair f"
  shows "owns i h' d' (logEntries (snd (upsert f r h d s)))"
proof -
  from assms(1) obtain e where e: "e \<in> set (logEntries s)" "log_id e = i"
      "log_habitId e = h'" "log_date e = d'"
    unfolding owns_def by auto
  show ?thesis
  proof (cases "getLogEntry h d (logEntries s)")
    case (Some existing)
    let ?g = "\<lambda>r. if log_id r = log_id existing then f r else r"
    have "?g e \<in> set (tupdate log_id (log_id existing) f (logEntries s))"
      unfolding tupdate_def using e(1) by (simp del: if_split)
    moreover have "log_id (?g e) = i \<and> log_habitId (?g e) = h' \<and> log_date (?g e) = d'"
      using e assms(2) by (simp add: keeps_pair_def)
    ultimately show ?thesis using Some unfolding owns_def upsert_def by auto
  next
    case None
    show ?thesis
    proof (cases "tadd log_id r (logEntries s)")
      case (Inl err)
      with None assms(1) show ?thesis by (simp add: upsert_def)
    next
      case (Inr t)
      with e have "e \<in> set t" by (simp add: set_tadd)
      with e None Inr show ?thesis unfolding owns_def upsert_def by auto
    qed
  qed
qed

lemma upsert_returns_owner:
  assumes "fst (upsert f r h d s) = Inr i" "keeps_pair f" "log_habitId r = h" "log_date r = d"
  shows "owns i h d (logEntries (snd (upsert f r h d s)))"
proof (cases "getLogEntry h d (logEntries s)")
  case (Some existing)
  then have "owns (log_id existing) h d (logEntries s)"
    unfolding owns_def using getLogEntry_Some [OF Some] by auto
  moreover have "i = log_id existing" using assms(1) Some by (simp add: upsert_def)
  ultimately show ?thesis using upsert_owns assms(2) by simp
next
  case None
  show ?thesis
  proof (cases "tadd log_id r (logEntries s)")
    case (Inl err)
    with None assms(1) show ?thesis by (simp add: upsert_def)
  next
    case (Inr t)
    then have "r \<in> set t" by (simp add: set_tadd)
    moreover have "i = log_id r" using assms(1) None Inr by (simp add: upsert_def)
    ultimately show ?thesis using None Inr assms(3,4) unfolding owns_def upsert_def by auto
  qed
qed

lemma owner_found:
  assumes "log_inv t" "owns i h d t"
  shows "\<exists>e. getLogEntry h d t = Some e \<and> log_id e = i"
proof -
  from assms(2) obtain e where e: "e \<in> set t" "log_id e = i" "log_habitId e = h" "log_date e = d"
    unfolding owns_def by auto
  then have mem: "e \<in> set (entriesFor h d t)" by (simp add: entriesFor_def)
  have "length (entriesFor h d t) \<le> 1" using assms(1) by (simp add: log_inv_def)
  with mem have "entriesFor h d t = [e]"
    by (cases "entriesFor h d t") auto
  then show ?thesis using e(2) by (simp add: getLogEntry_def firstOf_def entriesFor_def)
qed

lemma upsert_stable:
  assumes "log_inv (logEntries s)" "owns i h d (logEntries s)"
  shows "fst (upsert f r h d s) = Inr i"
  using owner_found [OF assms] by (auto simp: upsert_def)

lemma run_call_owns:
  "owns i h d (logEntries s) \<Longrightarrow> owns i h d (logEntries (snd (run_call c s)))"
  using run_call_upsert [of c s] upsert_owns by metis

lemma run_calls_owns:
  "owns i h d (logEntries s) \<Longrightarrow> owns i h d (logEntries (run_calls cs s))"
  unfolding run_calls_def by (induction cs arbitrary: s) (auto simp: run_call_owns)

lemma run_call_returns_owner:
  "fst (run_call c s) = Inr i \<Longrightarrow>
     owns i (fst (call_pair c)) (snd (call_pair c)) (logEntries (snd (run_call c s)))"
  using run_call_upsert [of c s] upsert_returns_owner by metis

lemma run_call_stable:
  "log_inv (logEntries s) \<Longrightarrow> owns i (fst (call_pair c)) (snd (call_pair c)) (logEntries s) \<Longrightarrow>
     fst (run_call c s) = Inr i"
  using run_call_upsert [of c s] upsert_stable by metis

text \<open>
  Claim C1. From a log table with at most one entry per pair of habit and date (the empty
  table is one), every sequence \<open>cs\<close> of calls of \<open>logHabit\<close> and \<open>skipHabit\<close> leaves at most
  one entry for every pair \<open>(h, d)\<close>. The identifier is stable: when a call \<open>c\<close> returns
  \<open>i\<close>, every later call \<open>c'\<close> for the same pair, after any calls \<open>cs\<close> in between, returns
  \<open>i\<close> again, so it has updated that entry and inserted none.
\<close>

theorem upsert_unique_stable:
  assumes "log_inv (logEntries s)"
  shows "length (entriesFor h d (logEntries (run_calls cs s))) \<le> 1
       \<and> (fst (run_call c s) = Inr i \<and> call_pair c' = call_pair c
            \<longrightarrow> fst (run_call c' (run_calls cs (snd (run_call c s)))) = Inr i)"
proof
  show "length (entriesFor h d (logEntries (run_calls cs s))) \<le> 1"
    using run_calls_inv [OF assms, of cs] by (simp add: log_inv_def)
next
  show "fst (run_call c s) = Inr i \<and> call_pair c' = call_pair c
            \<longrightarrow> fst (run_call c' (run_calls cs (snd (run_call c s)))) = Inr i"
  proof
    assume a: "fst (run_call c s) = Inr i \<and> call_pair c' = call_pair c"
    let ?s1 = "snd (run_call c s)"
    have inv1: "log_inv (logEntries (run_calls cs ?s1))"
      by (intro run_calls_inv run_call_inv assms)
    have "owns i (fst (call_pair c')) (snd (call_pair c')) (logEntries (run_calls cs ?s1))"
      using a run_call_returns_owner [of c s i] by (simp add: run_calls_owns)
    then show "fst (run_call c' (run_calls cs ?s1)) = Inr i"
      by (rule run_call_stable [OF inv1])
  qed
qed

text \<open>Three calls from the empty store; the first and the third are for the same day.\<close>

theorem upsert_unique_stable_witness:
  "log_inv (logEntries emptyStore)
   \<and> length (entriesFor ''h1'' ''2026-01-05''
        (logEntries (run_calls [call1, call2, call3] emptyStore))) = 1
   \<and> fst (run_call call1 emptyStore) = Inr ''mh0a-aaaaaaa''
   \<and> call_pair call3 = call_pair call1
   \<and> fst (run_call call3 (run_calls [call2] (snd (run_call call1 emptyStore))))
       = Inr ''mh0a-aaaaaaa''"
proof -
  have a: "log_inv (logEntries emptyStore)"
    by (simp add: log_inv_def emptyStore_def wf_table_def entriesFor_def)
  have b: "fst (run_call call1 emptyStore) = Inr ''mh0a-aaaaaaa''"
    by (simp add: call1_def logHabit_def emptyStore_def getLogEntry_def firstOf_def tadd_def
        tget_def)
  have c: "call_pair call3 = call_pair call1" by (simp add: call1_def call3_def)
  have d: "length (entriesFor ''h1'' ''2026-01-05''
        (logEntries (run_calls [call1, call2, call3] emptyStore))) = 1"
    by (simp add: run_calls_def call1_def call2_def call3_def logHabit_def skipHabit_def
        emptyStore_def getLogEntry_def firstOf_def tadd_def tget_def tupdate_def entriesFor_def
        logEntries_creating_def logEntries_updating_def)
  from upsert_unique_stable [OF a, where c = call1 and i = "''mh0a-aaaaaaa''" and c' = call3
      and cs = "[call2]"] b c
  have "fst (run_call call3 (run_calls [call2] (snd (run_call call1 emptyStore))))
       = Inr ''mh0a-aaaaaaa''" by simp
  with a b c d show ?thesis by simp
qed

subsection \<open>Skipping a day that has an entry\<close>

lemma tupdate_wf_eq:
  assumes "wf_table key t" "e \<in> set t"
  shows "tupdate key (key e) f t = map (\<lambda>x. if x = e then f e else x) t"
proof -
  have "inj_on key (set t)"
    using wf_table_distinct [OF assms(1)] by (simp add: distinct_map)
  with assms(2) have "\<And>x. x \<in> set t \<Longrightarrow> key x = key e \<longleftrightarrow> x = e"
    by (auto dest: inj_onD)
  then show ?thesis unfolding tupdate_def by (intro map_cong) auto
qed

lemma tget_tupdate:
  "tget key k t = Some e \<Longrightarrow> key (f e) = k \<Longrightarrow> tget key k (tupdate key k f t) = Some (f e)"
  unfolding tget_def tupdate_def by (induction t) (auto split: if_splits)

text \<open>
  Claim C10. When the pair \<open>(h, d)\<close> already has the entry \<open>e\<close>, \<open>skipHabit\<close> returns the
  identifier of \<open>e\<close> and changes \<open>skippedReason\<close> and \<open>updatedAt\<close> of that entry only: its
  identifier, \<open>createdAt\<close>, value, note, habit and date stay as they were (the value
  \<open>false\<close> is written on the inserting branch only), every other entry and every other
  table is unchanged.
\<close>

theorem skipHabit_existing_frame:
  assumes "wf_table log_id (logEntries s)"
    and "getLogEntry h d (logEntries s) = Some e"
  shows "fst (skipHabit h d reason newId now s) = Inr (log_id e)
       \<and> (\<exists>e'. tget log_id (log_id e) (logEntries (snd (skipHabit h d reason newId now s))) = Some e'
             \<and> log_skippedReason e' = Some reason \<and> log_updatedAt e' = now
             \<and> log_id e' = log_id e \<and> log_createdAt e' = log_createdAt e
             \<and> log_val e' = log_val e \<and> log_note e' = log_note e
             \<and> log_habitId e' = log_habitId e \<and> log_date e' = log_date e)
       \<and> logEntries (snd (skipHabit h d reason newId now s))
           = map (\<lambda>x. if x = e then e\<lparr>log_skippedReason := Some reason, log_updatedAt := now\<rparr>
                       else x) (logEntries s)
       \<and> categories (snd (skipHabit h d reason newId now s)) = categories s
       \<and> habits (snd (skipHabit h d reason newId now s)) = habits s
       \<and> settings (snd (skipHabit h d reason newId now s)) = settings s"
proof -
  let ?f = "logEntries_updating now
              (\<lambda>e. e\<lparr>log_skippedReason := Some reason, log_updatedAt := now\<rparr>)"
  have mem: "e \<in> set (logEntries s)" using getLogEntry_Some [OF assms(2)] by simp
  have res: "skipHabit h d reason newId now s
      = (Inr (log_id e), s\<lparr>logEntries := tupdate log_id (log_id e) ?f (logEntries s)\<rparr>)"
    using assms(2) by (simp add: skipHabit_def)
  have fe: "?f e = e\<lparr>log_skippedReason := Some reason, log_updatedAt := now\<rparr>"
    by (simp add: logEntries_updating_def)
  have got: "tget log_id (log_id e) (logEntries s) = Some e"
    by (rule tget_mem_wf [OF assms(1) mem])
  have "tget log_id (log_id e) (tupdate log_id (log_id e) ?f (logEntries s)) = Some (?f e)"
    by (rule tget_tupdate [OF got]) (simp add: logEntries_updating_def)
  moreover have "tupdate log_id (log_id e) ?f (logEntries s)
      = map (\<lambda>x. if x = e then ?f e else x) (logEntries s)"
    by (rule tupdate_wf_eq [OF assms(1) mem])
  ultimately show ?thesis unfolding res fe by simp
qed

text \<open>Skipping a day that already holds a logged value.\<close>

theorem skipHabit_existing_frame_witness:
  "wf_table log_id (logEntries storeA)
   \<and> getLogEntry ''h1'' ''2026-01-05'' (logEntries storeA) = Some entryA
   \<and> skipHabit ''h1'' ''2026-01-05'' ''travelling'' ''mh0z-zzzzzzz'' 99 storeA
       = (Inr ''mh0a-aaaaaaa'',
          storeA\<lparr>logEntries :=
            [entryA\<lparr>log_skippedReason := Some ''travelling'', log_updatedAt := 99\<rparr>, entryB]\<rparr>)"
proof -
  have a: "wf_table log_id (logEntries storeA)"
    by (simp add: storeA_def emptyStore_def wf_table_def entryA_def entryB_def)
  have b: "getLogEntry ''h1'' ''2026-01-05'' (logEntries storeA) = Some entryA"
    by (simp add: storeA_def emptyStore_def getLogEntry_def firstOf_def entryA_def entryB_def)
  have ne: "entryB \<noteq> entryA" by (simp add: entryA_def entryB_def)
  have id: "log_id entryA = ''mh0a-aaaaaaa''" by (simp add: entryA_def)
  from skipHabit_existing_frame [OF a b, of "''travelling''" "''mh0z-zzzzzzz''" 99]
  have "fst (skipHabit ''h1'' ''2026-01-05'' ''travelling'' ''mh0z-zzzzzzz'' 99 storeA)
          = Inr ''mh0a-aaaaaaa''
     \<and> snd (skipHabit ''h1'' ''2026-01-05'' ''travelling'' ''mh0z-zzzzzzz'' 99 storeA)
          = storeA\<lparr>logEntries :=
            [entryA\<lparr>log_skippedReason := Some ''travelling'', log_updatedAt := 99\<rparr>, entryB]\<rparr>"
    using ne by (simp add: id storeA_def emptyStore_def)
  with a b show ?thesis by (simp add: prod_eq_iff)
qed

subsection \<open>The upgrade of schema version 2, on open and on import\<close>

lemma tget_map:
  "(\<And>r. key (f r) = key r) \<Longrightarrow> tget key k (map f t) = map_option f (tget key k t)"
  unfolding tget_def by (induction t) auto

lemma hab_id_upgradeHabit: "hab_id (upgradeHabit h) = hab_id h"
  by (simp add: upgradeHabit_def Let_def)

lemma upgradeHabit_no_interval:
  "hab_interval h = None \<Longrightarrow>
     upgradeHabit h = h\<lparr>hab_interval := Some Daily,
        hab_reminderEnabled := Some (case hab_reminderEnabled h of None \<Rightarrow> False | Some b \<Rightarrow> b)\<rparr>"
  by (cases h) (auto simp: upgradeHabit_def Let_def split: option.splits)

text \<open>
  Claim C7. A version 1 store opened against the registry of version 2: a stored habit
  \<open>h\<close> that lacks \<open>interval\<close> is found under the same primary key with
  \<open>interval = daily\<close>; \<open>reminderEnabled\<close> is set to \<open>false\<close> if the record lacked it, and
  every field that the record had keeps its value. No habit is added or removed, and the
  log entries and the settings are untouched.
\<close>

theorem openDb_defaults_interval:
  assumes "wf_table hab_id (habits s)"
    and "h \<in> set (habits s)" and "hab_interval h = None"
  shows "\<exists>s'. openDb 1 s = Inr s'
           \<and> tget hab_id (hab_id h) (habits s')
               = Some (h\<lparr>hab_interval := Some Daily,
                    hab_reminderEnabled :=
                      Some (case hab_reminderEnabled h of None \<Rightarrow> False | Some b \<Rightarrow> b)\<rparr>)
           \<and> map hab_id (habits s') = map hab_id (habits s)
           \<and> logEntries s' = logEntries s \<and> settings s' = settings s"
proof -
  have "tget hab_id (hab_id h) (map upgradeHabit (habits s)) = Some (upgradeHabit h)"
    using tget_mem_wf [OF assms(1,2)] by (simp add: tget_map hab_id_upgradeHabit)
  then show ?thesis
    using assms(3)
    by (simp add: openDb_def CURRENT_DB_VERSION_def upgrade_v2_def upgradeHabit_no_interval
        hab_id_upgradeHabit cong: map_cong)
qed

text \<open>A version 1 store with one habit written before \<open>interval\<close> existed.\<close>

theorem openDb_defaults_interval_witness:
  "wf_table hab_id (habits storeV1) \<and> habitV1 \<in> set (habits storeV1)
   \<and> hab_interval habitV1 = None
   \<and> openDb 1 storeV1
       = Inr (storeV1\<lparr>habits :=
           [habitV1\<lparr>hab_interval := Some Daily, hab_reminderEnabled := Some False\<rparr>]\<rparr>)
   \<and> tget hab_id ''mh01-habit01'' [habitV1\<lparr>hab_interval := Some Daily, hab_reminderEnabled := Some False\<rparr>]
       = Some (habitV1\<lparr>hab_interval := Some Daily, hab_reminderEnabled := Some False\<rparr>)"
proof -
  have a: "wf_table hab_id (habits storeV1)"
    by (simp add: storeV1_def emptyStore_def wf_table_def)
  have b: "habitV1 \<in> set (habits storeV1)" by (simp add: storeV1_def emptyStore_def)
  have c: "hab_interval habitV1 = None" by (simp add: habitV1_def)
  have d: "openDb 1 storeV1
       = Inr (storeV1\<lparr>habits :=
           [habitV1\<lparr>hab_interval := Some Daily, hab_reminderEnabled := Some False\<rparr>]\<rparr>)"
    by (simp add: openDb_def CURRENT_DB_VERSION_def upgrade_v2_def storeV1_def emptyStore_def
        upgradeHabit_def habitV1_def Let_def)
  from openDb_defaults_interval [OF a b c] d
  have "tget hab_id (hab_id habitV1)
          [habitV1\<lparr>hab_interval := Some Daily, hab_reminderEnabled := Some False\<rparr>]
       = Some (habitV1\<lparr>hab_interval := Some Daily,
            hab_reminderEnabled :=
              Some (case hab_reminderEnabled habitV1 of None \<Rightarrow> False | Some b \<Rightarrow> b)\<rparr>)"
    by simp
  then have "tget hab_id ''mh01-habit01''
          [habitV1\<lparr>hab_interval := Some Daily, hab_reminderEnabled := Some False\<rparr>]
       = Some (habitV1\<lparr>hab_interval := Some Daily, hab_reminderEnabled := Some False\<rparr>)"
    by (simp add: habitV1_def)
  with a b c d show ?thesis by simp
qed

text \<open>
  Claim C2, at a failing input. \<open>importAllData\<close> of a snapshot of schema version 1 whose
  habit lacks \<open>interval\<close> succeeds and stores the habit as it is, but for the stamp of the
  creating hook: the imported habit still has no \<open>interval\<close>, where the upgrade of version
  2 gives the same record \<open>interval = daily\<close>. The comments of the function promise the
  migration.
\<close>

theorem importAllData_leaves_v1_shape:
  "fst (importAllData snapshotV1 500 emptyStore) = Inr ()
   \<and> habits (snd (importAllData snapshotV1 500 emptyStore)) = [habitV1\<lparr>hab_createdAt := 500\<rparr>]
   \<and> hab_interval (habitV1\<lparr>hab_createdAt := 500\<rparr>) = None
   \<and> hab_interval (upgradeHabit habitV1) = Some Daily"
  by (simp add: importAllData_def transaction_def importBody_def snapshotV1_def emptyStore_def
      clearTables_def tbulkPut_def tget_def habits_creating_def seedDefaultCategories_def Let_def
      upgrade_v2_def upgradeHabit_def habitV1_def)

subsection \<open>Order of a new habit; commits of deleteCategory\<close>

text \<open>
  Claim C3, at a failing input. After \<open>reorderHabits\<close> has given the older habit the order
  1 and the newer habit the order 0, the greatest order among the active habits of the
  category is 1, and \<open>createHabit\<close> gives the new habit the order 1 again, not 2: it reads
  the order of the habit with the greatest identifier.
\<close>

theorem createHabit_order_after_reorder:
  "habits storeReordered = [habitA\<lparr>hab_order := 1\<rparr>, habitB\<lparr>hab_order := 0\<rparr>]
   \<and> fst (createHabit habitDataC ''mh0c-habit0c'' 300 storeReordered) = Inr ''mh0c-habit0c''
   \<and> map (\<lambda>h. (hab_id h, hab_isActive h, hab_order h))
        (habits (snd (createHabit habitDataC ''mh0c-habit0c'' 300 storeReordered)))
       = [(''mh0a-habit0a'', True, 1), (''mh0b-habit0b'', True, 0), (''mh0c-habit0c'', True, 1)]"
  by (simp add: storeReordered_def reorderHabits_def emptyStore_def habitA_def habitB_def
      tupdate_def createHabit_def habitDataC_def lastOf_def tadd_def tget_def Let_def
      habits_creating_def)

text \<open>
  Claim C5, at a failing input. Deleting a category that owns a habit commits two states:
  in the first the habit is already reassigned to \<open>shubh-hisab\<close> while the category is
  still there. \<open>deleteHabit\<close> with its cascade, which runs in a transaction, commits one.
\<close>

theorem deleteCategory_commits_twice:
  "deleteCategory_commits ''mh0c-categ01'' storeC
     = Inr [storeC\<lparr>habits := [habitA]\<rparr>,
            storeC\<lparr>habits := [habitA], categories := [ashubhCategory 1, shubhCategory 1]\<rparr>]
   \<and> categories (storeC\<lparr>habits := [habitA]\<rparr>) = [ashubhCategory 1, userCategory, shubhCategory 1]
   \<and> deleteHabit_commits ''mh0a-habit0a'' True storeC = [storeC\<lparr>habits := []\<rparr>]"
  by (simp add: deleteCategory_commits_def storeC_def emptyStore_def tget_def
      ashubhCategory_def shubhCategory_def userCategory_def ASHUBH_HISAB_ID_def
      SHUBH_HISAB_ID_def reassignHabits_def habitU_def habitA_def tdelete_def Let_def
      deleteHabit_commits_def deleteHabit_def)

subsection \<open>The two fixed categories\<close>

lemma filter_tput_skip:
  "\<not> P r \<Longrightarrow> key r \<notin> key ` set t \<Longrightarrow> filter P (tput key r t) = filter P t"
  by (induction t) auto

lemma tget_tput_same: "tget key (key r) (tput key r t) \<noteq> None"
  unfolding tget_def by (induction t) auto

lemma tget_tput_other:
  "k \<noteq> key r \<Longrightarrow> tget key k (tput key r t) = None \<longleftrightarrow> tget key k t = None"
  unfolding tget_def by (induction t) auto

lemma tget_tput_other_eq: "k \<noteq> key r \<Longrightarrow> tget key k (tput key r t) = tget key k t"
  unfolding tget_def by (induction t) auto

lemma fixedCategories_tupdate:
  assumes "\<And>c. c \<in> set t \<Longrightarrow> cat_id c = k \<Longrightarrow>
      (cat_isFixed (f c) = Some True) = (cat_isFixed c = Some True)
      \<and> (cat_isFixed c = Some True \<longrightarrow>
            cat_id (f c) = cat_id c \<and> cat_hisabType (f c) = cat_hisabType c)"
  shows "fixedCategories (tupdate cat_id k f t) = fixedCategories t"
  using assms unfolding fixedCategories_def tupdate_def
proof (induction t)
  case Nil
  then show ?case by simp
next
  case (Cons x t)
  have ih: "map (\<lambda>c. (cat_id c, cat_hisabType c))
        (filter (\<lambda>c. cat_isFixed c = Some True) (map (\<lambda>r. if cat_id r = k then f r else r) t))
      = map (\<lambda>c. (cat_id c, cat_hisabType c)) (filter (\<lambda>c. cat_isFixed c = Some True) t)"
    by (rule Cons.IH) (simp add: Cons.prems)
  show ?case
  proof (cases "cat_id x = k")
    case True
    with Cons.prems [of x] ih show ?thesis by auto
  next
    case False
    with ih show ?thesis by simp
  qed
qed

lemma fixedCategories_tdelete:
  assumes "wf_table cat_id t"
    and "\<not> (case tget cat_id k t of Some category \<Rightarrow> cat_isFixed category = Some True
             | None \<Rightarrow> False)"
  shows "fixedCategories (tdelete cat_id k t) = fixedCategories t"
proof -
  have "cat_isFixed x \<noteq> Some True" if "x \<in> set t" "cat_id x = k" for x
    using tget_mem_wf [OF assms(1) that(1)] that(2) assms(2) by simp
  then have "filter (\<lambda>c. cat_isFixed c = Some True) (filter (\<lambda>r. cat_id r \<noteq> k) t)
      = filter (\<lambda>c. cat_isFixed c = Some True) t"
    by (auto intro: filter_cong)
  then show ?thesis by (simp add: fixedCategories_def tdelete_def)
qed

lemma fixedCategories_tadd:
  assumes "tadd cat_id r t = Inr t'" "cat_isFixed r \<noteq> Some True"
  shows "fixedCategories t' = fixedCategories t"
proof -
  from assms(1) have new: "cat_id r \<notin> cat_id ` set t" and t': "t' = tput cat_id r t"
    unfolding tadd_def by (auto split: option.splits simp: tget_None_iff)
  show ?thesis
    unfolding t' fixedCategories_def
    using filter_tput_skip [where P = "\<lambda>c. cat_isFixed c = Some True" and key = cat_id and r = r,
        OF assms(2) new]
    by simp
qed

lemma wf_tadd_cat: "tadd key r t = Inr t' \<Longrightarrow> wf_table key t \<Longrightarrow> wf_table key t'"
  unfolding tadd_def by (auto split: option.splits simp: wf_tput)

lemma cat_inv_createCategory:
  assumes "wf_table cat_id (categories s)"
  shows "wf_table cat_id (categories (snd (createCategory d i t s)))
       \<and> fixedCategories (categories (snd (createCategory d i t s)))
           = fixedCategories (categories s)"
proof -
  let ?r = "categories_creating t
       \<lparr>cat_id = i, cat_name = Some (cd_name d), cat_nameHindi = cd_nameHindi d,
        cat_color = Some (cd_color d), cat_icon = Some (cd_icon d),
        cat_order = Some (case lastOf (order_index (categories s)) of
                            Some m \<Rightarrow> fst m + 1 | None \<Rightarrow> 0),
        cat_isFixed = Some False, cat_hisabType = Some (cd_hisabType d),
        cat_createdAt = Some t\<rparr>"
  have nf: "cat_isFixed ?r \<noteq> Some True" by (simp add: categories_creating_def)
  show ?thesis
  proof (cases "tadd cat_id ?r (categories s)")
    case (Inl err)
    then have "snd (createCategory d i t s) = s" by (simp add: createCategory_def Let_def)
    with assms show ?thesis by simp
  next
    case (Inr t')
    then have "categories (snd (createCategory d i t s)) = t'"
      by (simp add: createCategory_def Let_def)
    with fixedCategories_tadd [OF Inr nf] wf_tadd_cat [OF Inr assms] show ?thesis by simp
  qed
qed

lemma cat_id_applyCategoryPatch: "cat_id (applyCategoryPatch p c) = cat_id c"
  by (simp add: applyCategoryPatch_def)

lemma cat_inv_patch_in_place:
  assumes wf: "wf_table cat_id t" and got: "tget cat_id k t = Some c"
    and flag: "(cat_isFixed (applyCategoryPatch p c) = Some True) = (cat_isFixed c = Some True)"
    and tag: "cat_isFixed c = Some True \<longrightarrow>
                cat_hisabType (applyCategoryPatch p c) = cat_hisabType c"
  shows "wf_table cat_id (tupdate cat_id k (applyCategoryPatch p) t)
       \<and> fixedCategories (tupdate cat_id k (applyCategoryPatch p) t) = fixedCategories t"
proof -
  have only: "x = c" if "x \<in> set t" "cat_id x = k" for x
    using tget_mem_wf [OF wf that(1)] that(2) got by simp
  have "fixedCategories (tupdate cat_id k (applyCategoryPatch p) t) = fixedCategories t"
  proof (rule fixedCategories_tupdate)
    fix x assume "x \<in> set t" "cat_id x = k"
    then have "x = c" by (rule only)
    then show "(cat_isFixed (applyCategoryPatch p x) = Some True) = (cat_isFixed x = Some True)
      \<and> (cat_isFixed x = Some True \<longrightarrow>
            cat_id (applyCategoryPatch p x) = cat_id x
            \<and> cat_hisabType (applyCategoryPatch p x) = cat_hisabType x)"
      using flag tag by (simp add: cat_id_applyCategoryPatch)
  qed
  moreover have "wf_table cat_id (tupdate cat_id k (applyCategoryPatch p) t)"
    using wf by (intro wf_tupdate) (simp_all add: cat_id_applyCategoryPatch)
  ultimately show ?thesis by simp
qed

lemma cat_inv_updateCategory:
  assumes wf: "wf_table cat_id (categories s)"
    and keeps: "keeps_fixed (UpdateCategory k p now) s"
  shows "wf_table cat_id (categories (snd (updateCategory k p now s)))
       \<and> fixedCategories (categories (snd (updateCategory k p now s)))
           = fixedCategories (categories s)"
proof (cases "tget cat_id k (categories s)")
  case None
  with wf show ?thesis by (simp add: updateCategory_def)
next
  case (Some c)
  from keeps Some
  have flag: "(cat_isFixed (applyCategoryPatch p c) = Some True) = (cat_isFixed c = Some True)"
    and fixed: "cat_isFixed c = Some True \<longrightarrow>
          (cp_id p = NotNamed \<or> cp_id p = Named k)
          \<and> cat_hisabType (applyCategoryPatch p c) = cat_hisabType c"
    by simp_all
  note in_place = cat_inv_patch_in_place [OF wf Some flag]
  show ?thesis
  proof (cases "cp_id p")
    case NotNamed
    with Some in_place fixed show ?thesis by (simp add: updateCategory_def)
  next
    case Undefined
    with Some wf show ?thesis by (simp add: updateCategory_def)
  next
    case (Named k')
    show ?thesis
    proof (cases "k' = k")
      case True
      with Named Some in_place fixed show ?thesis by (simp add: updateCategory_def)
    next
      case False
      with Named fixed have nf: "cat_isFixed c \<noteq> Some True" by auto
      let ?r = "categories_creating now ((applyCategoryPatch p c)\<lparr>cat_id := k'\<rparr>)"
      have rnf: "cat_isFixed ?r \<noteq> Some True"
        using nf flag by (simp add: categories_creating_def)
      have rid: "cat_id ?r = k'" by (simp add: categories_creating_def)
      show ?thesis
      proof (cases "tadd cat_id ?r (categories s)")
        case (Inl err)
        with Named False Some wf show ?thesis by (simp add: updateCategory_def)
      next
        case (Inr t')
        have wf': "wf_table cat_id t'" by (rule wf_tadd_cat [OF Inr wf])
        have fx: "fixedCategories t' = fixedCategories (categories s)"
          by (rule fixedCategories_tadd [OF Inr rnf])
        have t': "t' = tput cat_id ?r (categories s)"
          using Inr by (auto simp: tadd_def split: option.splits)
        have "tget cat_id k t' = Some c"
          unfolding t' using tget_tput_other_eq [of k cat_id ?r "categories s"] False Some
          by (simp add: rid)
        with nf have "\<not> (case tget cat_id k t' of
            Some category \<Rightarrow> cat_isFixed category = Some True | None \<Rightarrow> False)"
          by simp
        from fixedCategories_tdelete [OF wf' this] fx wf_tdelete [OF wf']
        have "wf_table cat_id (tdelete cat_id k t')
            \<and> fixedCategories (tdelete cat_id k t') = fixedCategories (categories s)"
          by simp
        moreover have "categories (snd (updateCategory k p now s)) = tdelete cat_id k t'"
          using Named False Some Inr by (simp add: updateCategory_def)
        ultimately show ?thesis by simp
      qed
    qed
  qed
qed

lemma cat_inv_deleteCategory:
  assumes "wf_table cat_id (categories s)"
  shows "wf_table cat_id (categories (snd (deleteCategory k s)))
       \<and> fixedCategories (categories (snd (deleteCategory k s)))
           = fixedCategories (categories s)"
proof (cases "case tget cat_id k (categories s) of
                Some category \<Rightarrow> cat_isFixed category = Some True | None \<Rightarrow> False")
  case True
  then have "snd (deleteCategory k s) = s"
    by (simp add: deleteCategory_def deleteCategory_commits_def)
  with assms show ?thesis by simp
next
  case False
  then have "categories (snd (deleteCategory k s)) = tdelete cat_id k (categories s)"
    by (simp add: deleteCategory_def deleteCategory_commits_def Let_def)
  then show ?thesis
    using fixedCategories_tdelete [OF assms False] wf_tdelete [OF assms] by simp
qed

lemma cat_inv_reorder_fold:
  "wf_table cat_id t \<Longrightarrow>
     wf_table cat_id
       (fold (\<lambda>(i, k) t. tupdate cat_id k (\<lambda>c. c\<lparr>cat_order := Some (int i)\<rparr>) t) iks t)
     \<and> fixedCategories
         (fold (\<lambda>(i, k) t. tupdate cat_id k (\<lambda>c. c\<lparr>cat_order := Some (int i)\<rparr>) t) iks t)
         = fixedCategories t"
proof (induction iks arbitrary: t)
  case Nil
  then show ?case by simp
next
  case (Cons ik iks)
  obtain i k where ik: "ik = (i, k)" by (cases ik)
  let ?t = "tupdate cat_id k (\<lambda>c. c\<lparr>cat_order := Some (int i)\<rparr>) t"
  have wf: "wf_table cat_id ?t" using Cons.prems by (simp add: wf_tupdate)
  have fx: "fixedCategories ?t = fixedCategories t"
    by (rule fixedCategories_tupdate) simp
  from Cons.IH [OF wf] fx show ?case by (simp add: ik)
qed

lemma cat_inv_reorderCategories:
  assumes "wf_table cat_id (categories s)"
  shows "wf_table cat_id (categories (reorderCategories ks s))
       \<and> fixedCategories (categories (reorderCategories ks s)) = fixedCategories (categories s)"
  using cat_inv_reorder_fold [OF assms] by (simp add: reorderCategories_def)

lemma cat_inv_op:
  assumes "wf_table cat_id (categories s)" "keeps_fixed op s"
  shows "wf_table cat_id (categories (run_cat_op op s))
       \<and> fixedCategories (categories (run_cat_op op s)) = fixedCategories (categories s)"
proof (cases op)
  case (CreateCategory d i t)
  then show ?thesis using cat_inv_createCategory [OF assms(1)] by simp
next
  case (UpdateCategory k p t)
  then show ?thesis using cat_inv_updateCategory [OF assms(1)] assms(2) by simp
next
  case (DeleteCategory k)
  then show ?thesis using cat_inv_deleteCategory [OF assms(1)] by simp
next
  case (ReorderCategories ks)
  then show ?thesis using cat_inv_reorderCategories [OF assms(1)] by simp
qed

lemma cat_inv_ops:
  "wf_table cat_id (categories s) \<Longrightarrow> all_keep_fixed ops s \<Longrightarrow>
     wf_table cat_id (categories (run_cat_ops ops s))
     \<and> fixedCategories (categories (run_cat_ops ops s)) = fixedCategories (categories s)"
  unfolding run_cat_ops_def
proof (induction ops arbitrary: s)
  case Nil
  then show ?case by simp
next
  case (Cons op ops)
  from Cons.prems have k: "keeps_fixed op s" and ks: "all_keep_fixed ops (run_cat_op op s)"
    by simp_all
  from cat_inv_op [OF Cons.prems(1) k] Cons.IH [OF _ ks]
  show ?case by simp
qed

lemma categories_seed_empty:
  "categories (seedDefaultCategories now emptyStore) = [ashubhCategory now, shubhCategory now]"
  by (simp add: seedDefaultCategories_def emptyStore_def tget_def Let_def
      categories_creating_def shubhCategory_def ashubhCategory_def SHUBH_HISAB_ID_def
      ASHUBH_HISAB_ID_def)

lemma seed_empty_inv:
  "wf_table cat_id (categories (seedDefaultCategories now emptyStore))
   \<and> fixed_inv (categories (seedDefaultCategories now emptyStore))"
  unfolding categories_seed_empty
  by (simp add: fixed_inv_def fixedCategories_def wf_table_def shubhCategory_def
      ashubhCategory_def SHUBH_HISAB_ID_def ASHUBH_HISAB_ID_def)

lemma seed_both_exist:
  "tget cat_id SHUBH_HISAB_ID (categories (seedDefaultCategories now s)) \<noteq> None
   \<and> tget cat_id ASHUBH_HISAB_ID (categories (seedDefaultCategories now s)) \<noteq> None"
proof -
  have ids: "cat_id (categories_creating now (shubhCategory now)) = SHUBH_HISAB_ID"
    "cat_id (categories_creating now (ashubhCategory now)) = ASHUBH_HISAB_ID"
    by (simp_all add: categories_creating_def shubhCategory_def ashubhCategory_def)
  have ne: "SHUBH_HISAB_ID \<noteq> ASHUBH_HISAB_ID"
    by (simp add: SHUBH_HISAB_ID_def ASHUBH_HISAB_ID_def)
  have s1: "tget cat_id SHUBH_HISAB_ID
      (tput cat_id (categories_creating now (shubhCategory now)) t) \<noteq> None" for t
    using tget_tput_same [of cat_id "categories_creating now (shubhCategory now)" t]
    by (simp add: ids)
  have a1: "tget cat_id ASHUBH_HISAB_ID
      (tput cat_id (categories_creating now (ashubhCategory now)) t) \<noteq> None" for t
    using tget_tput_same [of cat_id "categories_creating now (ashubhCategory now)" t]
    by (simp add: ids)
  have s2: "tget cat_id SHUBH_HISAB_ID
      (tput cat_id (categories_creating now (ashubhCategory now)) t) = None
      \<longleftrightarrow> tget cat_id SHUBH_HISAB_ID t = None" for t
    by (rule tget_tput_other) (simp add: ids ne)
  have a2: "tget cat_id ASHUBH_HISAB_ID
      (tput cat_id (categories_creating now (shubhCategory now)) t) = None
      \<longleftrightarrow> tget cat_id ASHUBH_HISAB_ID t = None" for t
    by (rule tget_tput_other) (simp add: ids ne [symmetric])
  show ?thesis
    by (simp add: seedDefaultCategories_def Let_def s1 a1 s2 a2 del: not_None_eq)
qed

lemma seed_idempotent:
  "seedDefaultCategories now' (seedDefaultCategories now s) = seedDefaultCategories now s"
  using seed_both_exist [of now s]
  by (subst seedDefaultCategories_def) (simp add: Let_def del: not_None_eq)

text \<open>
  Claim C6, amended. After seeding a fresh store, every sequence of \<open>createCategory\<close>,
  \<open>updateCategory\<close>, \<open>deleteCategory\<close> and \<open>reorderCategories\<close> leaves exactly two fixed
  categories, \<open>ashubh-hisab\<close> with the tag \<open>ashubh\<close> and \<open>shubh-hisab\<close> with the tag
  \<open>shubh\<close>, provided that no call of \<open>updateCategory\<close> changes whether the category it
  patches is fixed and that none patches the identifier of a fixed category (but with its
  own value) or changes the group tag of a fixed category. A patch may name
  \<open>id\<close>, \<open>isFixed\<close> or \<open>hisabType\<close>, with a value or with \<^verbatim>\<open>undefined\<close>, as long as it
  does none of this. The same holds from any store that holds exactly these two fixed
  categories. Seeding is idempotent: a second run changes nothing, in any store.
\<close>

theorem fixed_categories_preserved:
  "(all_keep_fixed ops (seedDefaultCategories now emptyStore)
      \<longrightarrow> fixed_inv (categories (run_cat_ops ops (seedDefaultCategories now emptyStore))))
   \<and> (wf_table cat_id (categories s) \<and> fixed_inv (categories s) \<and> all_keep_fixed ops s
      \<longrightarrow> fixed_inv (categories (run_cat_ops ops s)))
   \<and> seedDefaultCategories now' (seedDefaultCategories now s) = seedDefaultCategories now s"
  using cat_inv_ops [of "seedDefaultCategories now emptyStore" ops] seed_empty_inv [of now]
    cat_inv_ops [of s ops]
  by (simp add: fixed_inv_def seed_idempotent)

text \<open>
  Seven operations after seeding: a category is created, renamed together with a change
  of its group tag, moved to another identifier and deleted; the fixed category
  \<open>shubh-hisab\<close> is renamed, patched with its own flag and identifier, and its deletion
  is refused. The same operations on a store that holds a user category already.
\<close>

theorem fixed_categories_preserved_witness:
  "all_keep_fixed catOps (seedDefaultCategories 1 emptyStore)
   \<and> fixed_inv (categories (run_cat_ops catOps (seedDefaultCategories 1 emptyStore)))
   \<and> map cat_id (categories (run_cat_ops catOps (seedDefaultCategories 1 emptyStore)))
       = [''ashubh-hisab'', ''shubh-hisab'']
   \<and> wf_table cat_id (categories storeC) \<and> fixed_inv (categories storeC)
   \<and> all_keep_fixed catOps storeC
   \<and> fixed_inv (categories (run_cat_ops catOps storeC))
   \<and> seedDefaultCategories 2 (seedDefaultCategories 1 storeC) = seedDefaultCategories 1 storeC"
proof -
  have run: "categories (run_cat_ops catOps (seedDefaultCategories 1 emptyStore))
      = [(ashubhCategory 1)\<lparr>cat_order := Some 2\<rparr>,
         (shubhCategory 1)\<lparr>cat_name := Some ''Good'', cat_order := Some 1\<rparr>]"
    and a: "all_keep_fixed catOps (seedDefaultCategories 1 emptyStore)"
    by (simp_all add: catOps_def run_cat_ops_def seedDefaultCategories_def emptyStore_def
        Let_def tget_def tadd_def tupdate_def tdelete_def createCategory_def
        updateCategory_def deleteCategory_def deleteCategory_commits_def
        reorderCategories_def order_index_def List.map_filter_simps lastOf_def
        applyCategoryPatch_def patchField_def emptyPatch_def studyData_def
        categories_creating_def shubhCategory_def ashubhCategory_def SHUBH_HISAB_ID_def
        ASHUBH_HISAB_ID_def)
  have ids: "map cat_id (categories (run_cat_ops catOps (seedDefaultCategories 1 emptyStore)))
       = [''ashubh-hisab'', ''shubh-hisab'']"
    unfolding run
    by (simp add: shubhCategory_def ashubhCategory_def SHUBH_HISAB_ID_def ASHUBH_HISAB_ID_def)
  have b: "wf_table cat_id (categories storeC)"
    by (simp add: storeC_def emptyStore_def wf_table_def ashubhCategory_def shubhCategory_def
        userCategory_def ASHUBH_HISAB_ID_def SHUBH_HISAB_ID_def)
  have c: "fixed_inv (categories storeC)"
    by (simp add: storeC_def emptyStore_def fixed_inv_def fixedCategories_def
        ashubhCategory_def shubhCategory_def userCategory_def)
  have d: "all_keep_fixed catOps storeC"
    by (simp add: catOps_def storeC_def emptyStore_def userCategory_def
        Let_def tget_def tadd_def tupdate_def tdelete_def createCategory_def
        updateCategory_def deleteCategory_def deleteCategory_commits_def
        reorderCategories_def order_index_def List.map_filter_simps lastOf_def
        applyCategoryPatch_def patchField_def emptyPatch_def studyData_def
        categories_creating_def shubhCategory_def ashubhCategory_def SHUBH_HISAB_ID_def
        ASHUBH_HISAB_ID_def)
  from fixed_categories_preserved [of catOps 1 storeC 2] a b c d ids show ?thesis by simp
qed

text \<open>
  Claim C6 as stated fails, in three ways: \<open>updateCategory\<close> takes any
  \<^verbatim>\<open>Partial<Category>\<close> and writes it unchecked. A patch of \<open>isFixed\<close> on \<open>shubh-hisab\<close>
  leaves one fixed category; a patch of \<open>id\<close> moves the fixed category away from its
  reserved identifier; a patch that names \<open>hisabType\<close> with \<^verbatim>\<open>undefined\<close> leaves a fixed
  category without group tag.
\<close>

theorem fixed_categories_update_counterexample:
  "map (\<lambda>c. (cat_id c, cat_isFixed c))
     (categories (run_cat_ops
        [UpdateCategory ''shubh-hisab'' (emptyPatch\<lparr>cp_isFixed := Named False\<rparr>) 5]
        (seedDefaultCategories 1 emptyStore)))
   = [(''ashubh-hisab'', Some True), (''shubh-hisab'', Some False)]
   \<and> map (\<lambda>c. (cat_id c, cat_isFixed c))
     (categories (run_cat_ops
        [UpdateCategory ''shubh-hisab'' (emptyPatch\<lparr>cp_id := Named ''mine''\<rparr>) 5]
        (seedDefaultCategories 1 emptyStore)))
   = [(''ashubh-hisab'', Some True), (''mine'', Some True)]
   \<and> map (\<lambda>c. (cat_id c, cat_isFixed c, cat_hisabType c))
     (categories (run_cat_ops
        [UpdateCategory ''shubh-hisab'' (emptyPatch\<lparr>cp_hisabType := Undefined\<rparr>) 5]
        (seedDefaultCategories 1 emptyStore)))
   = [(''ashubh-hisab'', Some True, Some Ashubh), (''shubh-hisab'', Some True, None)]"
  by (simp add: run_cat_ops_def updateCategory_def categories_seed_empty tupdate_def
      tget_def tadd_def tdelete_def categories_creating_def
      applyCategoryPatch_def patchField_def emptyPatch_def shubhCategory_def ashubhCategory_def
      SHUBH_HISAB_ID_def ASHUBH_HISAB_ID_def)

subsection \<open>Export followed by import\<close>

lemma tput_last: "\<forall>x\<in>set t. key x < key r \<Longrightarrow> tput key r t = t @ [r]"
  by (induction t) auto

lemma fold_tput_sorted:
  assumes "\<And>r. key (f r) = key r"
  shows "wf_table key (acc @ t) \<Longrightarrow>
     fold (\<lambda>r a. tput key (f r) a) t acc = acc @ map f t"
proof (induction t arbitrary: acc)
  case Nil
  then show ?case by simp
next
  case (Cons r t)
  from Cons.prems have below: "\<forall>x\<in>set acc. key x < key (f r)"
    by (auto simp: wf_table_def sorted_wrt_append assms)
  then have put: "tput key (f r) acc = acc @ [f r]" by (rule tput_last)
  from Cons.prems have "wf_table key ((acc @ [f r]) @ t)"
    by (auto simp: wf_table_def sorted_wrt_append assms)
  from Cons.IH [OF this] put show ?case by simp
qed

lemma tbulkPut_empty:
  assumes "\<And>r. key (f r) = key r" "wf_table key t"
  shows "tbulkPut key f g t [] = map f t"
  using fold_tput_sorted [of key f "[]" t] assms by (simp add: tbulkPut_def tget_def)

lemma import_export:
  assumes "wf_store s"
  shows "importAllData (exportAllData exportedAt s) now s
           = (Inr (), seedDefaultCategories now (restamp now s))"
proof -
  have c: "tbulkPut cat_id (categories_creating now) (\<lambda>c. c) (categories s) []
        = map (categories_creating now) (categories s)"
    using assms by (intro tbulkPut_empty) (simp_all add: categories_creating_def wf_store_def)
  have h: "tbulkPut hab_id (habits_creating now) (\<lambda>h. h) (habits s) []
        = map (habits_creating now) (habits s)"
    using assms by (intro tbulkPut_empty) (simp_all add: habits_creating_def wf_store_def)
  have l: "tbulkPut log_id (logEntries_creating now) (logEntries_updating now (\<lambda>e. e))
        (logEntries s) [] = map (logEntries_creating now) (logEntries s)"
    using assms by (intro tbulkPut_empty) (simp_all add: logEntries_creating_def wf_store_def)
  have st: "tbulkPut set_key (\<lambda>r. r) (\<lambda>r. r) (settings s) [] = settings s"
    using assms tbulkPut_empty [of set_key "\<lambda>r. r" "settings s" "\<lambda>r. r"]
    by (simp add: wf_store_def)
  show ?thesis
    by (simp add: importAllData_def transaction_def importBody_def exportAllData_def
        clearTables_def Let_def c h l st restamp_def)
qed

lemma tget_map_key:
  "(\<And>r. key (f r) = key r) \<Longrightarrow> tget key k (map f t) = None \<longleftrightarrow> tget key k t = None"
  unfolding tget_def by (induction t) auto

lemma seed_restamp:
  assumes "tget cat_id SHUBH_HISAB_ID (categories s) \<noteq> None"
    and "tget cat_id ASHUBH_HISAB_ID (categories s) \<noteq> None"
  shows "seedDefaultCategories now (restamp now s) = restamp now s"
proof -
  have "tget cat_id k (categories (restamp now s)) = None \<longleftrightarrow> tget cat_id k (categories s) = None"
    for k
    unfolding restamp_def by (simp add: tget_map_key categories_creating_def)
  with assms show ?thesis by (simp add: seedDefaultCategories_def Let_def del: not_None_eq)
qed

lemma seed_restamp_missing:
  assumes "tget cat_id SHUBH_HISAB_ID (categories s) = None
           \<or> tget cat_id ASHUBH_HISAB_ID (categories s) = None"
  shows "seedDefaultCategories now (restamp now s)
      = s\<lparr>categories :=
            (let c0 = map (\<lambda>c. c\<lparr>cat_createdAt := Some now\<rparr>) (categories s);
                 c1 = (if tget cat_id SHUBH_HISAB_ID (categories s) = None
                       then tput cat_id (shubhCategory now) c0 else c0)
             in if tget cat_id ASHUBH_HISAB_ID (categories s) = None
                then tput cat_id (ashubhCategory now) c1 else c1),
          habits := map (\<lambda>h. h\<lparr>hab_createdAt := now\<rparr>) (habits s),
          logEntries :=
            map (\<lambda>e. e\<lparr>log_createdAt := now, log_updatedAt := now\<rparr>) (logEntries s),
          settings :=
            tput set_key \<lparr>set_key = ''hasSeededCategories'', set_val = SBool True\<rparr>
              (settings s)\<rparr>"
proof -
  have g: "tget cat_id k (map (\<lambda>c. c\<lparr>cat_createdAt := Some now\<rparr>) (categories s)) = None
      \<longleftrightarrow> tget cat_id k (categories s) = None" for k
    by (simp add: tget_map_key)
  have fx: "categories_creating now (shubhCategory now) = shubhCategory now"
    "categories_creating now (ashubhCategory now) = ashubhCategory now"
    by (simp_all add: categories_creating_def shubhCategory_def ashubhCategory_def)
  have r: "restamp now s
      = s\<lparr>categories := map (\<lambda>c. c\<lparr>cat_createdAt := Some now\<rparr>) (categories s),
          habits := map (\<lambda>h. h\<lparr>hab_createdAt := now\<rparr>) (habits s),
          logEntries :=
            map (\<lambda>e. e\<lparr>log_createdAt := now, log_updatedAt := now\<rparr>) (logEntries s)\<rparr>"
    by (simp add: restamp_def categories_creating_def habits_creating_def
        logEntries_creating_def cong: map_cong)
  from assms show ?thesis
    unfolding r
    by (cases "tget cat_id SHUBH_HISAB_ID (categories s) = None";
        cases "tget cat_id ASHUBH_HISAB_ID (categories s) = None")
       (simp_all add: seedDefaultCategories_def Let_def g fx del: not_None_eq)
qed

text \<open>
  Claim C8, amended. \<open>importAllData (exportAllData ...)\<close> at the instant \<open>now\<close> succeeds,
  and every category, habit and log entry of the store stands under its key with every
  field unchanged but \<open>createdAt\<close> (and \<open>updatedAt\<close> of a log entry), which the creating
  hooks set to \<open>now\<close>. When both fixed categories exist, that is all: no record is
  gained or lost and the settings are the same. When a fixed category is missing,
  seeding adds it and puts the setting \<open>hasSeededCategories\<close>, so the categories and the
  settings gain these records (or the setting changes its value).
\<close>

theorem import_export_roundtrip:
  assumes "wf_store s"
  shows "importAllData (exportAllData exportedAt s) now s
           = (Inr (), seedDefaultCategories now (restamp now s))
       \<and> (tget cat_id SHUBH_HISAB_ID (categories s) \<noteq> None
            \<and> tget cat_id ASHUBH_HISAB_ID (categories s) \<noteq> None
          \<longrightarrow> snd (importAllData (exportAllData exportedAt s) now s)
                = s\<lparr>categories := map (\<lambda>c. c\<lparr>cat_createdAt := Some now\<rparr>) (categories s),
                    habits := map (\<lambda>h. h\<lparr>hab_createdAt := now\<rparr>) (habits s),
                    logEntries :=
                      map (\<lambda>e. e\<lparr>log_createdAt := now, log_updatedAt := now\<rparr>)
                        (logEntries s)\<rparr>)
       \<and> (tget cat_id SHUBH_HISAB_ID (categories s) = None
            \<or> tget cat_id ASHUBH_HISAB_ID (categories s) = None
          \<longrightarrow> snd (importAllData (exportAllData exportedAt s) now s)
                = s\<lparr>categories :=
                      (let c0 = map (\<lambda>c. c\<lparr>cat_createdAt := Some now\<rparr>) (categories s);
                           c1 = (if tget cat_id SHUBH_HISAB_ID (categories s) = None
                                 then tput cat_id (shubhCategory now) c0 else c0)
                       in if tget cat_id ASHUBH_HISAB_ID (categories s) = None
                          then tput cat_id (ashubhCategory now) c1 else c1),
                    habits := map (\<lambda>h. h\<lparr>hab_createdAt := now\<rparr>) (habits s),
                    logEntries :=
                      map (\<lambda>e. e\<lparr>log_createdAt := now, log_updatedAt := now\<rparr>)
                        (logEntries s),
                    settings :=
                      tput set_key \<lparr>set_key = ''hasSeededCategories'', set_val = SBool True\<rparr>
                        (settings s)\<rparr>)"
proof -
  have r: "restamp now s
      = s\<lparr>categories := map (\<lambda>c. c\<lparr>cat_createdAt := Some now\<rparr>) (categories s),
          habits := map (\<lambda>h. h\<lparr>hab_createdAt := now\<rparr>) (habits s),
          logEntries :=
            map (\<lambda>e. e\<lparr>log_createdAt := now, log_updatedAt := now\<rparr>) (logEntries s)\<rparr>"
    by (simp add: restamp_def categories_creating_def habits_creating_def
        logEntries_creating_def cong: map_cong)
  have ie: "importAllData (exportAllData exportedAt s) now s
           = (Inr (), seedDefaultCategories now (restamp now s))"
    by (rule import_export [OF assms])
  have both: "tget cat_id SHUBH_HISAB_ID (categories s) \<noteq> None
            \<and> tget cat_id ASHUBH_HISAB_ID (categories s) \<noteq> None
          \<longrightarrow> snd (importAllData (exportAllData exportedAt s) now s)
                = s\<lparr>categories := map (\<lambda>c. c\<lparr>cat_createdAt := Some now\<rparr>) (categories s),
                    habits := map (\<lambda>h. h\<lparr>hab_createdAt := now\<rparr>) (habits s),
                    logEntries :=
                      map (\<lambda>e. e\<lparr>log_createdAt := now, log_updatedAt := now\<rparr>)
                        (logEntries s)\<rparr>"
    unfolding ie using seed_restamp [of s now] by (simp add: r del: not_None_eq)
  have missing: "tget cat_id SHUBH_HISAB_ID (categories s) = None
            \<or> tget cat_id ASHUBH_HISAB_ID (categories s) = None
          \<longrightarrow> snd (importAllData (exportAllData exportedAt s) now s)
                = s\<lparr>categories :=
                      (let c0 = map (\<lambda>c. c\<lparr>cat_createdAt := Some now\<rparr>) (categories s);
                           c1 = (if tget cat_id SHUBH_HISAB_ID (categories s) = None
                                 then tput cat_id (shubhCategory now) c0 else c0)
                       in if tget cat_id ASHUBH_HISAB_ID (categories s) = None
                          then tput cat_id (ashubhCategory now) c1 else c1),
                    habits := map (\<lambda>h. h\<lparr>hab_createdAt := now\<rparr>) (habits s),
                    logEntries :=
                      map (\<lambda>e. e\<lparr>log_createdAt := now, log_updatedAt := now\<rparr>)
                        (logEntries s),
                    settings :=
                      tput set_key \<lparr>set_key = ''hasSeededCategories'', set_val = SBool True\<rparr>
                        (settings s)\<rparr>"
    unfolding ie using seed_restamp_missing [of s now] by simp
  from ie both missing show ?thesis by blast
qed

text \<open>
  A seeded store with one habit and one log entry, and a store with one habit and no
  category, each exported and imported at 9.
\<close>

theorem import_export_roundtrip_witness:
  "wf_store storeR
   \<and> tget cat_id SHUBH_HISAB_ID (categories storeR) = Some (shubhCategory 1)
   \<and> tget cat_id ASHUBH_HISAB_ID (categories storeR) = Some (ashubhCategory 1)
   \<and> importAllData (exportAllData ''2026-01-05T10:00:00.000Z'' storeR) 9 storeR
       = (Inr (),
          storeR\<lparr>categories := [ashubhCategory 9, shubhCategory 9],
            habits := [habitA\<lparr>hab_createdAt := 9\<rparr>],
            logEntries := [entryA\<lparr>log_createdAt := 9, log_updatedAt := 9\<rparr>]\<rparr>)
   \<and> wf_store storeV1
   \<and> tget cat_id SHUBH_HISAB_ID (categories storeV1) = None
   \<and> importAllData (exportAllData ''2026-01-05T10:00:00.000Z'' storeV1) 9 storeV1
       = (Inr (),
          storeV1\<lparr>categories := [ashubhCategory 9, shubhCategory 9],
            habits := [habitV1\<lparr>hab_createdAt := 9\<rparr>],
            settings := [\<lparr>set_key = ''hasSeededCategories'', set_val = SBool True\<rparr>]\<rparr>)"
proof -
  have a: "wf_store storeR"
    by (simp add: wf_store_def storeR_def wf_table_def ashubhCategory_def shubhCategory_def
        ASHUBH_HISAB_ID_def SHUBH_HISAB_ID_def)
  have b: "tget cat_id SHUBH_HISAB_ID (categories storeR) = Some (shubhCategory 1)"
    by (simp add: storeR_def tget_def ashubhCategory_def shubhCategory_def
        ASHUBH_HISAB_ID_def SHUBH_HISAB_ID_def)
  have c: "tget cat_id ASHUBH_HISAB_ID (categories storeR) = Some (ashubhCategory 1)"
    by (simp add: storeR_def tget_def ashubhCategory_def shubhCategory_def
        ASHUBH_HISAB_ID_def SHUBH_HISAB_ID_def)
  have d: "map (\<lambda>c. c\<lparr>cat_createdAt := Some 9\<rparr>) (categories storeR)
             = [ashubhCategory 9, shubhCategory 9]"
    "map (\<lambda>h. h\<lparr>hab_createdAt := 9\<rparr>) (habits storeR) = [habitA\<lparr>hab_createdAt := 9\<rparr>]"
    "map (\<lambda>e. e\<lparr>log_createdAt := 9, log_updatedAt := 9\<rparr>) (logEntries storeR)
       = [entryA\<lparr>log_createdAt := 9, log_updatedAt := 9\<rparr>]"
    by (simp_all add: storeR_def ashubhCategory_def shubhCategory_def)
  note t = import_export_roundtrip [OF a, of "''2026-01-05T10:00:00.000Z''" 9]
  from t [THEN conjunct1]
  have f: "fst (importAllData (exportAllData ''2026-01-05T10:00:00.000Z'' storeR) 9 storeR)
      = Inr ()" by simp
  from t [THEN conjunct2, THEN conjunct1] b c
  have "snd (importAllData (exportAllData ''2026-01-05T10:00:00.000Z'' storeR) 9 storeR)
      = storeR\<lparr>categories := map (\<lambda>c. c\<lparr>cat_createdAt := Some 9\<rparr>) (categories storeR),
          habits := map (\<lambda>h. h\<lparr>hab_createdAt := 9\<rparr>) (habits storeR),
          logEntries := map (\<lambda>e. e\<lparr>log_createdAt := 9, log_updatedAt := 9\<rparr>)
                          (logEntries storeR)\<rparr>"
    by simp
  with f have 1: "importAllData (exportAllData ''2026-01-05T10:00:00.000Z'' storeR) 9 storeR
       = (Inr (),
          storeR\<lparr>categories := [ashubhCategory 9, shubhCategory 9],
            habits := [habitA\<lparr>hab_createdAt := 9\<rparr>],
            logEntries := [entryA\<lparr>log_createdAt := 9, log_updatedAt := 9\<rparr>]\<rparr>)"
    unfolding d by (simp add: prod_eq_iff)
  have a': "wf_store storeV1"
    by (simp add: wf_store_def storeV1_def emptyStore_def wf_table_def)
  have b': "tget cat_id SHUBH_HISAB_ID (categories storeV1) = None"
    "tget cat_id ASHUBH_HISAB_ID (categories storeV1) = None"
    by (simp_all add: storeV1_def emptyStore_def tget_def)
  have d': "tput cat_id (ashubhCategory 9) (tput cat_id (shubhCategory 9) [])
      = [ashubhCategory 9, shubhCategory 9]"
    by (simp add: ashubhCategory_def shubhCategory_def ASHUBH_HISAB_ID_def SHUBH_HISAB_ID_def)
  have e': "categories storeV1 = []" "habits storeV1 = [habitV1]" "logEntries storeV1 = []"
    "settings storeV1 = []"
    by (simp_all add: storeV1_def emptyStore_def)
  note t' = import_export_roundtrip [OF a', of "''2026-01-05T10:00:00.000Z''" 9]
  from t' [THEN conjunct1]
  have f': "fst (importAllData (exportAllData ''2026-01-05T10:00:00.000Z'' storeV1) 9 storeV1)
      = Inr ()" by simp
  from t' [THEN conjunct2, THEN conjunct2] b'
  have "snd (importAllData (exportAllData ''2026-01-05T10:00:00.000Z'' storeV1) 9 storeV1)
      = storeV1\<lparr>categories := tput cat_id (ashubhCategory 9) (tput cat_id (shubhCategory 9) []),
          habits := [habitV1\<lparr>hab_createdAt := 9\<rparr>],
          logEntries := [],
          settings := [\<lparr>set_key = ''hasSeededCategories'', set_val = SBool True\<rparr>]\<rparr>"
    by (simp add: e' Let_def)
  with f' have 2: "importAllData (exportAllData ''2026-01-05T10:00:00.000Z'' storeV1) 9 storeV1
       = (Inr (),
          storeV1\<lparr>categories := [ashubhCategory 9, shubhCategory 9],
            habits := [habitV1\<lparr>hab_createdAt := 9\<rparr>],
            settings := [\<lparr>set_key = ''hasSeededCategories'', set_val = SBool True\<rparr>]\<rparr>)"
    unfolding d' by (simp add: prod_eq_iff storeV1_def emptyStore_def)
  from a b c 1 a' b'(1) 2 show ?thesis by simp
qed

text \<open>
  Claim C8 as stated fails twice: the round trip of a seeded store restamps its records
  (the log entry created at 10 comes back created at 9), and the round trip of the empty
  store gains the two fixed categories.
\<close>

theorem import_export_roundtrip_counterexample:
  "snd (importAllData (exportAllData ''2026-01-05T10:00:00.000Z'' storeR) 9 storeR) \<noteq> storeR
   \<and> snd (importAllData (exportAllData ''2026-01-05T10:00:00.000Z'' emptyStore) 9 emptyStore)
       \<noteq> emptyStore"
proof -
  have "log_createdAt (hd (logEntries
      (snd (importAllData (exportAllData ''2026-01-05T10:00:00.000Z'' storeR) 9 storeR)))) = 9"
    by (simp add: importAllData_def transaction_def importBody_def exportAllData_def
        clearTables_def Let_def storeR_def tbulkPut_def tget_def seedDefaultCategories_def
        ashubhCategory_def shubhCategory_def ASHUBH_HISAB_ID_def SHUBH_HISAB_ID_def
        categories_creating_def logEntries_creating_def)
  moreover have "log_createdAt (hd (logEntries storeR)) = 10"
    by (simp add: storeR_def entryA_def)
  ultimately have 1: "snd (importAllData (exportAllData ''2026-01-05T10:00:00.000Z'' storeR) 9
      storeR) \<noteq> storeR"
    by (metis numeral_eq_iff num.distinct(5))
  have "length (categories (snd (importAllData
      (exportAllData ''2026-01-05T10:00:00.000Z'' emptyStore) 9 emptyStore))) = 2"
    by (simp add: importAllData_def transaction_def importBody_def exportAllData_def
        clearTables_def Let_def emptyStore_def tbulkPut_def tget_def seedDefaultCategories_def
        ashubhCategory_def shubhCategory_def ASHUBH_HISAB_ID_def SHUBH_HISAB_ID_def
        categories_creating_def)
  moreover have "length (categories emptyStore) = 0" by (simp add: emptyStore_def)
  ultimately have 2: "snd (importAllData
      (exportAllData ''2026-01-05T10:00:00.000Z'' emptyStore) 9 emptyStore) \<noteq> emptyStore"
    by auto
  from 1 2 show ?thesis by simp
qed

subsection \<open>Import of a malformed snapshot\<close>

text \<open>
  Claim C4, amended. \<open>importAllData\<close> checks nothing and has no error of its own for a
  malformed snapshot. When one of the four table arrays is missing, \<open>bulkPut\<close> throws
  inside the transaction, after the tables were cleared there; the transaction is rolled
  back and the call fails with every table as it was. When the four arrays are there the
  call succeeds, and \<open>version\<close>, \<open>schemaVersion\<close> and \<open>exportedAt\<close> play no part in the
  result. The settings page refuses a file without \<open>version\<close>, \<open>categories\<close> or
  \<open>habits\<close> before it calls \<open>importAllData\<close>.
\<close>

theorem importAllData_missing_table_rolls_back:
  "(ex_categories data = None \<or> ex_habits data = None \<or> ex_logEntries data = None
      \<or> ex_settings data = None
    \<longrightarrow> importAllData data now s = (Inl TypeError, s))
   \<and> (ex_categories data \<noteq> None \<and> ex_habits data \<noteq> None \<and> ex_logEntries data \<noteq> None
      \<and> ex_settings data \<noteq> None
    \<longrightarrow> importAllData data now s
          = importAllData
              (data\<lparr>ex_version := None, ex_schemaVersion := None, ex_exportedAt := None\<rparr>) now s
        \<and> fst (importAllData data now s) = Inr ())
   \<and> (ex_version data = None \<or> ex_categories data = None \<or> ex_habits data = None
    \<longrightarrow> handleImport data confirmed now s = (Inl InvalidBackupFile, s))"
  by (auto simp: importAllData_def transaction_def importBody_def handleImport_def Let_def
      split: option.splits)

text \<open>A snapshot without \<open>settings\<close>, a file without \<open>version\<close>, and a complete snapshot.\<close>

theorem importAllData_missing_table_rolls_back_witness:
  "ex_settings snapshotNoSettings = None
   \<and> importAllData snapshotNoSettings 9 storeR = (Inl TypeError, storeR)
   \<and> ex_version snapshotBare = None
   \<and> handleImport snapshotBare True 9 storeR = (Inl InvalidBackupFile, storeR)
   \<and> fst (importAllData snapshotV1 9 storeR) = Inr ()"
proof -
  have a: "ex_settings snapshotNoSettings = None" by (simp add: snapshotNoSettings_def)
  have b: "ex_version snapshotBare = None" by (simp add: snapshotBare_def)
  have c: "ex_categories snapshotV1 \<noteq> None \<and> ex_habits snapshotV1 \<noteq> None
      \<and> ex_logEntries snapshotV1 \<noteq> None \<and> ex_settings snapshotV1 \<noteq> None"
    by (simp add: snapshotV1_def)
  note t1 = importAllData_missing_table_rolls_back [of snapshotNoSettings 9 storeR]
  note t2 = importAllData_missing_table_rolls_back [of snapshotBare 9 storeR True]
  note t3 = importAllData_missing_table_rolls_back [of snapshotV1 9 storeR]
  from t1 [THEN conjunct1] a
  have 1: "importAllData snapshotNoSettings 9 storeR = (Inl TypeError, storeR)" by simp
  from t2 [THEN conjunct2, THEN conjunct2] b
  have 2: "handleImport snapshotBare True 9 storeR = (Inl InvalidBackupFile, storeR)" by simp
  from t3 [THEN conjunct2, THEN conjunct1] c
  have 3: "fst (importAllData snapshotV1 9 storeR) = Inr ()" by blast
  from a b 1 2 3 show ?thesis by simp
qed

text \<open>
  Claim C4 as stated fails: a snapshot without \<open>version\<close>, \<open>schemaVersion\<close> and
  \<open>exportedAt\<close> is imported, and the habits and log entries of the store are gone.
\<close>

theorem importAllData_unvalidated_counterexample:
  "ex_version snapshotBare = None \<and> ex_schemaVersion snapshotBare = None
   \<and> ex_exportedAt snapshotBare = None
   \<and> fst (importAllData snapshotBare 9 storeR) = Inr ()
   \<and> habits storeR = [habitA]
   \<and> habits (snd (importAllData snapshotBare 9 storeR)) = []
   \<and> logEntries storeR = [entryA]
   \<and> logEntries (snd (importAllData snapshotBare 9 storeR)) = []"
  by (simp add: importAllData_def transaction_def importBody_def snapshotBare_def Let_def
      storeR_def clearTables_def tbulkPut_def seedDefaultCategories_def)

end
